theory Spec2Isabelle
  imports Main
begin

section \<open>Strings and regular expressions\<close>

text \<open>
  Python strings are modelled as \<^typ>\<open>string\<close>, restricted to ASCII: \<^verbatim>\<open>str.lower\<close> maps
  \<^verbatim>\<open>A-Z\<close> to \<^verbatim>\<open>a-z\<close> and leaves every other character alone.
\<close>

definition lower_char :: "char \<Rightarrow> char" where
  "lower_char c =
     (case map_of (zip ''ABCDEFGHIJKLMNOPQRSTUVWXYZ'' ''abcdefghijklmnopqrstuvwxyz'') c of
        None \<Rightarrow> c | Some d \<Rightarrow> d)"

definition lower :: "string \<Rightarrow> string" where
  "lower s = map lower_char s"

text \<open>\<^verbatim>\<open>s.startswith(p)\<close> and \<^verbatim>\<open>p in s\<close>.\<close>

fun startswith :: "string \<Rightarrow> string \<Rightarrow> bool" where
  "startswith s [] = True"
| "startswith [] (p # ps) = False"
| "startswith (x # xs) (p # ps) = (x = p \<and> startswith xs ps)"

fun py_in :: "string \<Rightarrow> string \<Rightarrow> bool" where
  "py_in p [] = (p = [])"
| "py_in p (x # xs) = (startswith (x # xs) p \<or> py_in p xs)"

text \<open>\<^verbatim>\<open>any(k in s for k in ks)\<close>.\<close>

definition any_in :: "string list \<Rightarrow> string \<Rightarrow> bool" where
  "any_in ks s = (\<exists>k \<in> set ks. py_in k s)"

text \<open>Whitespace as \<^verbatim>\<open>str.strip()\<close> and the class \<^verbatim>\<open>\s\<close> see it (ASCII part).\<close>

definition is_space :: "char \<Rightarrow> bool" where
  "is_space c =
     (c \<in> set [CHR '' '', CHR 0x09, CHR 0x0A, CHR 0x0B, CHR 0x0C, CHR 0x0D,
               CHR 0x1C, CHR 0x1D, CHR 0x1E, CHR 0x1F])"

definition rstrip_chars :: "(char \<Rightarrow> bool) \<Rightarrow> string \<Rightarrow> string" where
  "rstrip_chars P s = rev (dropWhile P (rev s))"

definition strip :: "string \<Rightarrow> string" where
  "strip s = rstrip_chars is_space (dropWhile is_space s)"

text \<open>\<^verbatim>\<open>s.rstrip('/')\<close>.\<close>

definition rstrip_slash :: "string \<Rightarrow> string" where
  "rstrip_slash s = rstrip_chars (\<lambda>c. c = CHR ''/'') s"

text \<open>\<^verbatim>\<open>str(n)\<close> for a natural number and for an integer.\<close>

fun string_of_nat :: "nat \<Rightarrow> string" where
  "string_of_nat n =
     (if n < 10 then [''0123456789'' ! n]
      else string_of_nat (n div 10) @ [''0123456789'' ! (n mod 10)])"

definition string_of_int :: "int \<Rightarrow> string" where
  "string_of_int i =
     (if i < 0 then CHR ''-'' # string_of_nat (nat (- i)) else string_of_nat (nat i))"

text \<open>
  The regular expressions of the source are sequences of literals, starred character
  classes (\<^verbatim>\<open>[^"]*\<close>, \<^verbatim>\<open>\s*\<close>, \<^verbatim>\<open>.*\<close>), one optional character (\<^verbatim>\<open>s?\<close>), a negative
  lookahead for a literal (\<^verbatim>\<open>(?!...)\<close> with an escaped domain) and a group of literal
  alternatives. All of them are used with \<^verbatim>\<open>re.IGNORECASE\<close>. \<open>rx_match\<close> is the
  backtracking matcher anchored at the start of its input: it returns the input left
  after the first match in Python's order of preference (a star is greedy, alternatives
  are tried left to right).
\<close>

datatype cclass = NoneOf string | Space | Dot

datatype rx_item = Lit string | Star cclass | Opt char | NotAhead string | Alt "string list"

fun in_class :: "cclass \<Rightarrow> char \<Rightarrow> bool" where
  "in_class (NoneOf cs) c = (c \<notin> set cs)"
| "in_class Space c = is_space c"
| "in_class Dot c = (c \<noteq> CHR 0x0A)"

definition ci_startswith :: "string \<Rightarrow> string \<Rightarrow> bool" where
  "ci_startswith s w = startswith (lower s) (lower w)"

fun first_some :: "'a option list \<Rightarrow> 'a option" where
  "first_some [] = None"
| "first_some (None # xs) = first_some xs"
| "first_some (Some x # xs) = Some x"

fun rx_match :: "rx_item list \<Rightarrow> string \<Rightarrow> string option" where
  "rx_match [] s = Some s"
| "rx_match (Lit w # r) s =
     (if ci_startswith s w then rx_match r (drop (length w) s) else None)"
| "rx_match (Star c # r) [] = rx_match r []"
| "rx_match (Star c # r) (x # xs) =
     (if in_class c x then
        (case rx_match (Star c # r) xs of Some t \<Rightarrow> Some t | None \<Rightarrow> rx_match r (x # xs))
      else rx_match r (x # xs))"
| "rx_match (Opt c # r) [] = rx_match r []"
| "rx_match (Opt c # r) (x # xs) =
     (if lower_char x = lower_char c then
        (case rx_match r xs of Some t \<Rightarrow> Some t | None \<Rightarrow> rx_match r (x # xs))
      else rx_match r (x # xs))"
| "rx_match (NotAhead w # r) s = (if ci_startswith s w then None else rx_match r s)"
| "rx_match (Alt ws # r) s =
     first_some
       (map (\<lambda>w. if ci_startswith s w then rx_match r (drop (length w) s) else None) ws)"

text \<open>
  \<^verbatim>\<open>len(re.findall(r, s, re.IGNORECASE))\<close>: the scan restarts where the last match
  ended. Every pattern of the source starts with a literal, so no match is empty.
\<close>

function findall_count :: "rx_item list \<Rightarrow> string \<Rightarrow> nat" where
  "findall_count r [] = 0"
| "findall_count r (x # xs) =
     (case rx_match r (x # xs) of
        None \<Rightarrow> findall_count r xs
      | Some t \<Rightarrow> Suc (findall_count r (if length t < length (x # xs) then t else xs)))"
  by pat_completeness auto
termination
  by (relation "measure (\<lambda>(r, s). length s)") (auto split: if_splits)

text \<open>\<^verbatim>\<open>re.search(r, s, re.IGNORECASE)\<close> as a truth value.\<close>

fun rx_search :: "rx_item list \<Rightarrow> string \<Rightarrow> bool" where
  "rx_search r [] = (rx_match r [] \<noteq> None)"
| "rx_search r (x # xs) = (rx_match r (x # xs) \<noteq> None \<or> rx_search r xs)"

section \<open>The analyzer object\<close>

record settings =
  concurrency :: int
  batch_size :: int
  timeout :: int
  delay_between_batches :: int
  max_pages_per_site :: int

text \<open>A pattern dictionary, in insertion order (the order Python iterates it in).\<close>

type_synonym pattern_table = "(string \<times> string list) list"

text \<open>
  The fields of \<^verbatim>\<open>ContinuousTourOperatorAnalyzer\<close> that the analysis reads;
  \<open>phase\<close> is \<^verbatim>\<open>stats['phase']\<close>.
\<close>

record analyzer =
  aggressive_settings :: settings
  conservative_settings :: settings
  patient_settings :: settings
  current_settings :: settings
  chatbot_patterns :: pattern_table
  booking_patterns :: pattern_table
  ota_patterns :: pattern_table
  phase :: string

definition init_chatbot_patterns :: pattern_table where
  "init_chatbot_patterns =
     [(''intercom'', [''intercom'', ''widget.intercom.io'']),
      (''zendesk'', [''zendesk'', ''zopim'', ''zdchat'']),
      (''drift'', [''drift.com'', ''js.driftt.com'']),
      (''tidio'', [''tidio'', ''code.tidio.co'']),
      (''tawk'', [''tawk.to'', ''embed.tawk.to'']),
      (''livechat'', [''livechatinc'', ''cdn.livechatinc.com'']),
      (''crisp'', [''crisp.chat'', ''client.crisp.chat'']),
      (''hubspot'', [''hubspot'', ''js.hs-analytics.net'']),
      (''freshchat'', [''freshchat'', ''wchat.freshchat.com'']),
      (''olark'', [''olark.com'', ''static.olark.com'']),
      (''smartsupp'', [''smartsupp.com'']),
      (''chatlio'', [''chatlio.com'']),
      (''pure_chat'', [''purechat.com'']),
      (''chat_widget'', [''chat-widget'', ''chatwidget'', ''chat_widget'']),
      (''messenger'', [''messenger'', ''connect.facebook.net''])]"

definition init_booking_patterns :: pattern_table where
  "init_booking_patterns =
     [(''fareharbor'', [''fareharbor.com'', ''fareharbor'', ''fh-button'', ''fh-widget'']),
      (''resd'', [''resd.com'', ''res-d.com'', ''resd-booking'']),
      (''woocommerce'', [''woocommerce'', ''wc-'', ''wp-content/plugins/woocommerce'']),
      (''shopify'', [''shopify'', ''cdn.shopify.com'', ''shop.app'']),
      (''bookeo'', [''bookeo.com'', ''bookeo'']),
      (''checkfront'', [''checkfront.com'', ''checkfront'']),
      (''peek'', [''peek.com'', ''bookwithpeek'']),
      (''rezdy'', [''rezdy.com'', ''rezdy'']),
      (''regiondo'', [''regiondo.com'', ''regiondo'']),
      (''trekksoft'', [''trekksoft.com'', ''trekksoft'']),
      (''bokun'', [''bokun.io'', ''bokun.com'']),
      (''viator'', [''viator.com'', ''viator'']),
      (''stripe'', [''stripe.com'', ''js.stripe.com'']),
      (''square'', [''squareup.com'', ''square'']),
      (''paypal'', [''paypal.com'', ''paypal'']),
      (''book_now'', [''book-now'', ''booknow'', ''reservation'']),
      (''calendar_booking'', [''calendly.com'', ''acuityscheduling''])]"

definition init_ota_patterns :: pattern_table where
  "init_ota_patterns =
     [(''getyourguide'', [''getyourguide.com'', ''getyourguide'']),
      (''viator'', [''viator.com'', ''tripadvisor'']),
      (''tripadvisor'', [''tripadvisor.com'', ''tripadvisor'']),
      (''expedia'', [''expedia.com'', ''expedia'']),
      (''airbnb'', [''airbnb.com'', ''airbnb'']),
      (''booking'', [''booking.com'', ''booking'']),
      (''klook'', [''klook.com'', ''klook'']),
      (''tiqets'', [''tiqets.com'', ''tiqets'']),
      (''headout'', [''headout.com'', ''headout'']),
      (''musement'', [''musement.com'', ''musement'']),
      (''citypass'', [''citypass.com'', ''citypass'']),
      (''gocity'', [''gocity.com'', ''smartdestinations'']),
      (''isango'', [''isango.com'', ''isango'']),
      (''attractiontix'', [''attractiontix.com'']),
      (''veltra'', [''veltra.com'', ''veltra''])]"

definition mk_settings :: "int \<Rightarrow> int \<Rightarrow> int \<Rightarrow> int \<Rightarrow> int \<Rightarrow> settings" where
  "mk_settings c b t d m =
     \<lparr>concurrency = c, batch_size = b, timeout = t, delay_between_batches = d,
      max_pages_per_site = m\<rparr>"

text \<open>\<^verbatim>\<open>__init__\<close>, lines 25-138.\<close>

definition init :: "int \<Rightarrow> analyzer" where
  "init ram_gb =
     (let aggressive = (if ram_gb \<ge> 32 then mk_settings 45 80 45000 30 3
                        else mk_settings 20 30 45000 45 3)
      in \<lparr>aggressive_settings = aggressive,
          conservative_settings = (if ram_gb \<ge> 32 then mk_settings 20 40 75000 60 5
                                   else mk_settings 10 20 75000 90 5),
          patient_settings = mk_settings 5 10 120000 120 7,
          current_settings = aggressive,
          chatbot_patterns = init_chatbot_patterns,
          booking_patterns = init_booking_patterns,
          ota_patterns = init_ota_patterns,
          phase = ''Aggressive Processing''\<rparr>)"

text \<open>
  Library functions of Python that the source calls and whose code is not part of the
  repository are parameters of the model: \<^verbatim>\<open>urlparse(u).netloc\<close> and
  \<^verbatim>\<open>urljoin(base, ref)\<close> (\<open>None\<close> when they raise \<^verbatim>\<open>ValueError\<close>), and the order in
  which a \<^verbatim>\<open>set\<close> built from the given elements is iterated.
\<close>

record pylib =
  netloc :: "string \<Rightarrow> string option"
  urljoin :: "string \<Rightarrow> string \<Rightarrow> string option"
  set_order :: "string list \<Rightarrow> string list"

section \<open>Detection results\<close>


text \<open>
  The analyzers of \<^verbatim>\<open>continuous_analyzer.py\<close> pass Python dictionaries around. The
  dictionary built by \<^verbatim>\<open>analyze_page_content\<close> has the keys \<^verbatim>\<open>has_chatbot\<close>,
  \<^verbatim>\<open>chatbot_types\<close>, \<^verbatim>\<open>booking_technology\<close>, \<^verbatim>\<open>ota_dependencies\<close> and
  \<^verbatim>\<open>analysis_details\<close>; the one returned by \<^verbatim>\<open>analyze_website\<close> adds
  \<^verbatim>\<open>pages_analyzed\<close>. The \<^verbatim>\<open>analysis_details\<close> dictionary is either empty (the
  initial value in \<^verbatim>\<open>analyze_website\<close>) or holds all six keys written by
  \<^verbatim>\<open>analyze_page_content\<close>: \<open>None\<close> stands for the empty dictionary.
\<close>

record details =
  has_online_booking :: bool
  has_contact_form :: bool
  mentions_commission :: bool
  has_live_chat_ui :: bool
  has_booking_widgets :: bool
  external_booking_links :: nat

record analysis =
  has_chatbot :: bool
  chatbot_types :: "string list"
  booking_technology :: "string list"
  ota_dependencies :: "string list"
  analysis_details :: "details option"

record site_analysis = analysis +
  pages_analyzed :: nat

section \<open>Prospect classifier\<close>

text \<open>
  \<^verbatim>\<open>details.get('has_online_booking')\<close>: \<^verbatim>\<open>None\<close> (falsy) on the empty dictionary.
\<close>

definition details_online_booking :: "details option \<Rightarrow> bool" where
  "details_online_booking d =
     (case d of None \<Rightarrow> False | Some x \<Rightarrow> has_online_booking x)"

text \<open>
  \<^verbatim>\<open>_generate_prospect_evaluation\<close>, lines 379-395. A Python list is truthy when it is
  not empty.
\<close>

definition generate_prospect_evaluation :: "'a analysis_scheme \<Rightarrow> string" where
  "generate_prospect_evaluation a =
     (if \<not> has_chatbot a then
        (if booking_technology a \<noteq> [] \<or> details_online_booking (analysis_details a) then
           (if ota_dependencies a \<noteq> [] then ''HIGH-VALUE PROSPECT''
            else ''GOOD PROSPECT'')
         else ''MEDIUM PROSPECT'')
      else ''NOT A PROSPECT'')"

text \<open>The three inputs of the classifier's truth table.\<close>

definition booking_present :: "'a analysis_scheme \<Rightarrow> bool" where
  "booking_present a =
     (booking_technology a \<noteq> [] \<or> details_online_booking (analysis_details a))"

definition ota_present :: "'a analysis_scheme \<Rightarrow> bool" where
  "ota_present a = (ota_dependencies a \<noteq> [])"

text \<open>
  The classifier as the specification words it: four rules tried in a fixed order, the
  first whose condition holds gives the tier.
\<close>

fun first_rule :: "(bool \<times> string) list \<Rightarrow> string \<Rightarrow> string" where
  "first_rule [] dflt = dflt"
| "first_rule ((c, t) # rs) dflt = (if c then t else first_rule rs dflt)"

definition tier_by_priority :: "bool \<Rightarrow> bool \<Rightarrow> bool \<Rightarrow> string" where
  "tier_by_priority chatbot booking ota =
     first_rule
       [(\<not> chatbot \<and> booking \<and> ota, ''HIGH-VALUE PROSPECT''),
        (\<not> chatbot \<and> booking, ''GOOD PROSPECT''),
        (\<not> chatbot, ''MEDIUM PROSPECT'')]
       ''NOT A PROSPECT''"

section \<open>Signal extractor\<close>

text \<open>
  The known-pattern loops of \<^verbatim>\<open>analyze_page_content\<close> (lines 200-206, 216-221 and
  228-233): for each dictionary entry, the first pattern found in the combined content
  records the entry's key once and ends the inner loop. The chatbot loop also sets the
  \<^verbatim>\<open>has_chatbot\<close> flag.
\<close>

fun detect_known_chatbots ::
  "pattern_table \<Rightarrow> string \<Rightarrow> bool \<times> string list \<Rightarrow> bool \<times> string list" where
  "detect_known_chatbots [] content st = st"
| "detect_known_chatbots ((chatbot_type, patterns) # rest) content (flag, types) =
     detect_known_chatbots rest content
       (if any_in patterns content
        then (True, if chatbot_type \<in> set types then types else types @ [chatbot_type])
        else (flag, types))"

fun detect_known :: "pattern_table \<Rightarrow> string \<Rightarrow> string list \<Rightarrow> string list" where
  "detect_known [] content types = types"
| "detect_known ((ty, patterns) # rest) content types =
     detect_known rest content
       (if any_in patterns content
        then (if ty \<in> set types then types else types @ [ty])
        else types)"

text \<open>\<^verbatim>\<open>_detect_unknown_chatbot\<close>, lines 254-291.\<close>

definition chat_ui_indicators :: "rx_item list list" where
  "chat_ui_indicators =
     [[Lit ''class=\"'', Star (NoneOf ''\"''), Lit ''chat'', Star (NoneOf ''\"''), Lit ''\"''],
      [Lit ''class=\"'', Star (NoneOf ''\"''), Lit ''message'', Star (NoneOf ''\"''), Lit ''\"''],
      [Lit ''class=\"'', Star (NoneOf ''\"''), Lit ''widget'', Star (NoneOf ''\"''), Lit ''\"''],
      [Lit ''class=\"'', Star (NoneOf ''\"''), Lit ''bubble'', Star (NoneOf ''\"''), Lit ''\"''],
      [Lit ''id=\"'', Star (NoneOf ''\"''), Lit ''chat'', Star (NoneOf ''\"''), Lit ''\"''],
      [Lit ''id=\"'', Star (NoneOf ''\"''), Lit ''message'', Star (NoneOf ''\"''), Lit ''\"''],
      [Lit ''<div'', Star (NoneOf ''>''), Lit ''chat'', Star (NoneOf ''>''), Lit ''>''],
      [Lit ''<iframe'', Star (NoneOf ''>''), Lit ''chat'', Star (NoneOf ''>''), Lit ''>''],
      [Lit ''data-'', Star (NoneOf ''=''), Lit ''chat'', Star (NoneOf ''=''), Lit ''=''],
      [Lit ''aria-label=\"'', Star (NoneOf ''\"''), Lit ''chat'', Star (NoneOf ''\"''),
       Lit ''\"''],
      [Lit ''function'', Star (NoneOf ''{''), Lit ''chat'', Star (NoneOf ''{''), Lit ''{''],
      [Lit ''.chat'', Star Space, Lit ''(''],
      [Lit ''chat'', Star Space, Lit '':''],
      [Lit ''chatbot''],
      [Lit ''livechat'']]"

definition chat_text_indicators :: "string list" where
  "chat_text_indicators =
     [''start chat'', ''chat with us'', ''live chat'', ''chat now'',
      ''send message'', ''type your message'', ''chat support'',
      ''online support'', ''ask us anything'', ''need help?'',
      ''how can we help'', ''chat bubble'', ''minimize chat'']"

record chatbot_indicators =
  likely_chatbot :: bool
  confidence_score :: nat
  evidence :: "string list"

definition chat_ui_evidence :: "nat \<Rightarrow> string" where
  "chat_ui_evidence m = ''chat_ui_elements ('' @ string_of_nat m @ '' found)''"

definition chat_text_evidence :: "string \<Rightarrow> string" where
  "chat_text_evidence indicator = ''chat_text: '' @ [CHR 0x27] @ indicator @ [CHR 0x27]"

fun chat_ui_loop ::
  "rx_item list list \<Rightarrow> string \<Rightarrow> nat \<times> string list \<Rightarrow> nat \<times> string list" where
  "chat_ui_loop [] html_content st = st"
| "chat_ui_loop (pattern # rest) html_content (score, ev) =
     (let matches = findall_count pattern html_content
      in chat_ui_loop rest html_content
           (if matches > 0 then (score + matches, ev @ [chat_ui_evidence matches])
            else (score, ev)))"

fun chat_text_loop ::
  "string list \<Rightarrow> string \<Rightarrow> nat \<times> string list \<Rightarrow> nat \<times> string list" where
  "chat_text_loop [] text_lower st = st"
| "chat_text_loop (indicator # rest) text_lower (score, ev) =
     chat_text_loop rest text_lower
       (if py_in indicator text_lower then (score + 2, ev @ [chat_text_evidence indicator])
        else (score, ev))"

definition detect_unknown_chatbot :: "string \<Rightarrow> string \<Rightarrow> chatbot_indicators" where
  "detect_unknown_chatbot html_content page_text =
     (case chat_text_loop chat_text_indicators (lower page_text)
             (chat_ui_loop chat_ui_indicators html_content (0, [])) of
        (score, ev) \<Rightarrow>
          \<lparr>likely_chatbot = (score \<ge> 5), confidence_score = score,
           evidence = (if score \<ge> 5 then ev else [])\<rparr>)"

text \<open>\<^verbatim>\<open>_detect_unknown_booking_system\<close>, lines 293-326.\<close>

definition booking_form_patterns :: "rx_item list list" where
  "booking_form_patterns =
     [[Lit ''<form'', Star (NoneOf ''>''), Lit ''book'', Star (NoneOf ''>''), Lit ''>''],
      [Lit ''<form'', Star (NoneOf ''>''), Lit ''reserv'', Star (NoneOf ''>''), Lit ''>''],
      [Lit ''<form'', Star (NoneOf ''>''), Lit ''ticket'', Star (NoneOf ''>''), Lit ''>''],
      [Lit ''input'', Star (NoneOf ''>''), Lit ''date'', Star (NoneOf ''>'')],
      [Lit ''select'', Star (NoneOf ''>''), Lit ''guest'', Star (NoneOf ''>''), Lit ''>''],
      [Lit ''select'', Star (NoneOf ''>''), Lit ''person'', Star (NoneOf ''>''), Lit ''>''],
      [Lit ''input'', Star (NoneOf ''>''), Lit ''quantity'', Star (NoneOf ''>''), Lit ''>''],
      [Lit ''button'', Star (NoneOf ''>''), Lit ''book'', Star (NoneOf ''>''), Lit ''>'']]"

definition detect_unknown_booking_system :: "string \<Rightarrow> string \<Rightarrow> string list" where
  "detect_unknown_booking_system html_content page_text =
     (let form_matches = length (filter (\<lambda>p. rx_search p html_content) booking_form_patterns)
      in (if form_matches \<ge> 3 then [''custom_booking_form''] else [])
         @ (if any_in [''datepicker'', ''calendar-widget'', ''date-selector'',
                       ''flatpickr'', ''pikaday'', ''datejs'', ''moment.js'']
                 (lower html_content)
            then [''calendar_booking_widget''] else [])
         @ (if any_in [''payment-form'', ''credit-card'', ''card-number'',
                       ''billing-address'', ''cvv'', ''expiry'']
                 (lower html_content)
            then [''integrated_payment_system''] else []))"

text \<open>
  \<^verbatim>\<open>_detect_unknown_ota_integration\<close>, lines 328-351. An exception inside the
  \<^verbatim>\<open>try\<close> (here: \<^verbatim>\<open>urlparse\<close> raising) leaves the list empty.
\<close>

definition external_booking_patterns :: "string \<Rightarrow> rx_item list list" where
  "external_booking_patterns domain =
     [[Lit ''href=\"http'', Opt CHR ''s'', Lit ''://'', NotAhead domain, Star Dot, Lit ''book''],
      [Lit ''href=\"http'', Opt CHR ''s'', Lit ''://'', NotAhead domain, Star Dot,
       Lit ''reserv''],
      [Lit ''href=\"http'', Opt CHR ''s'', Lit ''://'', NotAhead domain, Star Dot,
       Lit ''ticket'']]"

definition detect_unknown_ota_integration ::
  "pylib \<Rightarrow> string \<Rightarrow> string \<Rightarrow> string \<Rightarrow> string list" where
  "detect_unknown_ota_integration lib html_content page_text page_url =
     (case netloc lib page_url of
        None \<Rightarrow> []
      | Some domain \<Rightarrow>
          (let external_links =
                 sum_list (map (\<lambda>p. findall_count p html_content)
                             (external_booking_patterns domain))
           in if external_links \<ge> 2 then [''external_booking_redirects''] else []))"

text \<open>
  \<^verbatim>\<open>_has_chat_ui_elements\<close>, \<^verbatim>\<open>_has_booking_widgets\<close> and
  \<^verbatim>\<open>_count_external_booking_links\<close>, lines 353-377.
\<close>

definition has_chat_ui_elements :: "string \<Rightarrow> bool" where
  "has_chat_ui_elements html_content =
     any_in [''chat-widget'', ''chat-bubble'', ''chat-button'',
             ''message-input'', ''chat-container'', ''live-chat'']
       (lower html_content)"

definition has_booking_widgets_in :: "string \<Rightarrow> bool" where
  "has_booking_widgets_in html_content =
     any_in [''booking-widget'', ''reservation-form'', ''book-now'',
             ''date-picker'', ''guest-selector'', ''booking-calendar'']
       (lower html_content)"

definition count_external_booking_links :: "pylib \<Rightarrow> string \<Rightarrow> string \<Rightarrow> nat" where
  "count_external_booking_links lib html_content page_url =
     (case netloc lib page_url of
        None \<Rightarrow> 0
      | Some domain \<Rightarrow>
          findall_count
            [Lit ''href=\"http'', Opt CHR ''s'', Lit ''://'', NotAhead domain,
             Star (NoneOf ''\"''), Alt [''book'', ''reserv'', ''ticket'', ''buy''],
             Star (NoneOf ''\"''), Lit ''\"'']
            html_content)"

text \<open>\<^verbatim>\<open>analyze_page_content\<close>, lines 185-252.\<close>

definition analysis_details_of :: "pylib \<Rightarrow> string \<Rightarrow> string \<Rightarrow> string \<Rightarrow> details" where
  "analysis_details_of lib combined_content html_content page_url =
     \<lparr>has_online_booking =
        any_in [''book online'', ''book now'', ''reserve now'', ''buy tickets'', ''purchase'']
          combined_content,
      has_contact_form =
        any_in [''contact form'', ''contact us'', ''get in touch'', ''enquiry'']
          combined_content,
      mentions_commission =
        any_in [''commission'', ''booking fee'', ''service fee''] combined_content,
      has_live_chat_ui = has_chat_ui_elements html_content,
      has_booking_widgets = has_booking_widgets_in html_content,
      external_booking_links = count_external_booking_links lib html_content page_url\<rparr>"

definition behavioral_chatbot :: "string \<Rightarrow> string \<Rightarrow> bool \<times> string list \<Rightarrow> bool \<times> string list" where
  "behavioral_chatbot html_content page_text st =
     (case st of (flag, types) \<Rightarrow>
        if \<not> flag then
          (let chatbot_indicators = detect_unknown_chatbot html_content page_text
           in if likely_chatbot chatbot_indicators
              then (True, types @ evidence chatbot_indicators)
              else (flag, types))
        else (flag, types))"

definition analyze_page_content ::
  "analyzer \<Rightarrow> pylib \<Rightarrow> string \<Rightarrow> string \<Rightarrow> string \<Rightarrow> analysis" where
  "analyze_page_content self lib html_content page_text page_url =
     (let combined_content = lower html_content @ '' '' @ lower page_text;
          chat = behavioral_chatbot html_content page_text
                   (detect_known_chatbots (chatbot_patterns self) combined_content (False, []))
      in \<lparr>has_chatbot = fst chat,
          chatbot_types = snd chat,
          booking_technology =
            detect_known (booking_patterns self) combined_content []
            @ detect_unknown_booking_system html_content page_text,
          ota_dependencies =
            detect_known (ota_patterns self) combined_content []
            @ detect_unknown_ota_integration lib html_content page_text page_url,
          analysis_details =
            Some (analysis_details_of lib combined_content html_content page_url)\<rparr>)"

section \<open>One page\<close>

text \<open>
  What the browser gives for one navigation. \<^verbatim>\<open>page.goto\<close>, the settle delay,
  \<^verbatim>\<open>page.content()\<close> and the evaluation of \<^verbatim>\<open>innerText\<close> may raise: \<open>Load_error\<close>.
  Otherwise the page has its HTML and text, the outcome of each
  \<^verbatim>\<open>query_selector_all\<close> of \<^verbatim>\<open>_detect_dynamic_elements\<close> (\<open>None\<close> when the wait before
  them raises) and the list of resource URLs (\<open>None\<close> when the evaluation raises). An
  element either raises on \<^verbatim>\<open>inner_text\<close>/\<^verbatim>\<open>is_visible\<close> or has a text and a
  visibility.
\<close>

datatype element = Elem_error | Elem string bool

datatype query = Query_error | Elements "element list"

record page_content =
  page_html :: string
  page_text :: string
  selector_query :: "(string \<Rightarrow> query) option"
  network_requests :: "string list option"

datatype page_load = Load_error string | Loaded page_content

text \<open>\<^verbatim>\<open>_detect_dynamic_elements\<close>, lines 472-506.\<close>

definition chatbot_selectors :: "string list" where
  "chatbot_selectors =
     [''[class*=\"chat\"]:not([class*=\"chart\"])'', ''[id*=\"chat\"]:not([id*=\"chart\"])'',
      ''[class*=\"widget\"]'', ''[id*=\"widget\"]'',
      ''[class*=\"messenger\"]'', ''[id*=\"messenger\"]'']"

definition chat_keywords :: "string list" where
  "chat_keywords =
     [''start chat'', ''chat with'', ''live chat'', ''support chat'',
      ''help chat'', ''message us'', ''ask question'', ''need help'']"

fun dynamic_elements_loop :: "element list \<Rightarrow> analysis \<Rightarrow> analysis" where
  "dynamic_elements_loop [] a = a"
| "dynamic_elements_loop (Elem_error # es) a = dynamic_elements_loop es a"
| "dynamic_elements_loop (Elem element_text is_visible # es) a =
     (if any_in chat_keywords (lower element_text) \<and> is_visible
      then a\<lparr>has_chatbot := True, chatbot_types := chatbot_types a @ [''dynamic_chat_widget'']\<rparr>
      else dynamic_elements_loop es a)"

fun dynamic_selectors_loop :: "(string \<Rightarrow> query) \<Rightarrow> string list \<Rightarrow> analysis \<Rightarrow> analysis" where
  "dynamic_selectors_loop q [] a = a"
| "dynamic_selectors_loop q (selector # rest) a =
     (case q selector of
        Query_error \<Rightarrow> a
      | Elements elements \<Rightarrow>
          dynamic_selectors_loop q rest (dynamic_elements_loop (take 3 elements) a))"

definition detect_dynamic_elements :: "page_content \<Rightarrow> analysis \<Rightarrow> analysis" where
  "detect_dynamic_elements page a =
     (case selector_query page of
        None \<Rightarrow> a
      | Some q \<Rightarrow> dynamic_selectors_loop q chatbot_selectors a)"

text \<open>
  \<^verbatim>\<open>_analyze_network_requests\<close>, lines 508-552. An exception in the loop
  (\<^verbatim>\<open>urlparse\<close> raising) ends it and keeps what was collected.
\<close>

record network_analysis =
  chatbot_services :: "string list"
  booking_services :: "string list"
  ota_services :: "string list"

definition chatbot_domains :: "string list" where
  "chatbot_domains =
     [''chat'', ''support'', ''widget'', ''messenger'', ''livechat'', ''zendesk'',
      ''intercom'', ''drift'', ''crisp'', ''tidio'', ''tawk'']"

definition booking_domains :: "string list" where
  "booking_domains =
     [''booking'', ''reserv'', ''ticket'', ''payment'', ''checkout'', ''stripe'',
      ''paypal'', ''square'']"

text \<open>\<^verbatim>\<open>item.split('_')[0]\<close>.\<close>

definition split_first :: "string \<Rightarrow> string" where
  "split_first item = takeWhile (\<lambda>c. c \<noteq> CHR ''_'') item"

definition add_service ::
  "pylib \<Rightarrow> string list \<Rightarrow> string \<Rightarrow> string list \<Rightarrow> string list option" where
  "add_service lib keywords request_url services =
     (if any_in keywords (lower request_url) then
        (case netloc lib request_url of
           None \<Rightarrow> None
         | Some domain \<Rightarrow>
             Some (if domain \<in> set (map split_first services) then services
                   else services @ [''network_'' @ domain]))
      else Some services)"

fun network_loop :: "pylib \<Rightarrow> string list \<Rightarrow> network_analysis \<Rightarrow> network_analysis" where
  "network_loop lib [] na = na"
| "network_loop lib (request_url # rest) na =
     (case add_service lib chatbot_domains request_url (chatbot_services na) of
        None \<Rightarrow> na
      | Some cs \<Rightarrow>
          (case add_service lib booking_domains request_url (booking_services na) of
             None \<Rightarrow> na\<lparr>chatbot_services := cs\<rparr>
           | Some bs \<Rightarrow>
               network_loop lib rest (na\<lparr>chatbot_services := cs, booking_services := bs\<rparr>)))"

definition analyze_network_requests :: "pylib \<Rightarrow> page_content \<Rightarrow> network_analysis" where
  "analyze_network_requests lib page =
     (let empty = \<lparr>chatbot_services = [], booking_services = [], ota_services = []\<rparr>
      in case network_requests page of
           None \<Rightarrow> empty
         | Some requests \<Rightarrow> network_loop lib requests empty)"

text \<open>
  \<^verbatim>\<open>analyze_page\<close>, lines 436-470: \<open>Inl\<close> is the dictionary with the \<^verbatim>\<open>error\<close> key.
  The timeout is passed to the browser only and acts through the outcome of the load.
\<close>

definition analyze_page :: "analyzer \<Rightarrow> pylib \<Rightarrow> page_load \<Rightarrow> string \<Rightarrow> string + analysis" where
  "analyze_page self lib load url =
     (case load of
        Load_error e \<Rightarrow> Inl e
      | Loaded page \<Rightarrow>
          (let a = detect_dynamic_elements page
                     (analyze_page_content self lib (page_html page) (page_text page) url);
               na = analyze_network_requests lib page;
               a' = a\<lparr>chatbot_types := chatbot_types a @ chatbot_services na,
                      booking_technology := booking_technology a @ booking_services na,
                      ota_dependencies := ota_dependencies a @ ota_services na\<rparr>
           in Inr (if chatbot_services na \<noteq> [] then a'\<lparr>has_chatbot := True\<rparr> else a')))"

section \<open>One site\<close>

text \<open>
  The browser during one call of \<^verbatim>\<open>analyze_website\<close>: whether creating the context
  and its page raises, the outcome of the \<open>k\<close>-th navigation (the root page is number
  0), the navigation links found by \<^verbatim>\<open>query_selector_all\<close> after the root page was
  requested (\<open>None\<close> when the query raises; a link raises on \<^verbatim>\<open>get_attribute\<close> or has
  an optional \<^verbatim>\<open>href\<close>), and whether closing the context raises.
\<close>

datatype nav_link = Link_error | Link "string option"

record site_env =
  context_error :: "string option"
  load_page :: "nat \<Rightarrow> string \<Rightarrow> page_load"
  nav_links :: "nav_link list option"
  close_error :: "string option"

text \<open>
  \<^verbatim>\<open>all_results\<close>: the Python sets are kept as duplicate-free lists in insertion order.
  \<open>navigated\<close> is not a key of the dictionary: it records the URLs handed to
  \<^verbatim>\<open>page.goto\<close>, in order.
\<close>

record crawl = site_analysis +
  navigated :: "string list"

fun set_update :: "string list \<Rightarrow> string list \<Rightarrow> string list" where
  "set_update s [] = s"
| "set_update s (x # xs) = set_update (if x \<in> set s then s else s @ [x]) xs"

definition merge_main :: "analysis \<Rightarrow> crawl \<Rightarrow> crawl" where
  "merge_main a st =
     st\<lparr>has_chatbot := has_chatbot a,
        chatbot_types := set_update (chatbot_types st) (chatbot_types a),
        booking_technology := set_update (booking_technology st) (booking_technology a),
        ota_dependencies := set_update (ota_dependencies st) (ota_dependencies a),
        analysis_details := analysis_details a,
        pages_analyzed := pages_analyzed st + 1\<rparr>"

definition merge_sub :: "analysis \<Rightarrow> crawl \<Rightarrow> crawl" where
  "merge_sub a st =
     st\<lparr>has_chatbot := (if has_chatbot a then True else has_chatbot st),
        chatbot_types := set_update (chatbot_types st) (chatbot_types a),
        booking_technology := set_update (booking_technology st) (booking_technology a),
        ota_dependencies := set_update (ota_dependencies st) (ota_dependencies a),
        pages_analyzed := pages_analyzed st + 1\<rparr>"

text \<open>
  The candidate pages, lines 584-597. \<open>None\<close>: an exception was raised, which the
  \<^verbatim>\<open>except Exception: pass\<close> of line 621 turns into "no additional page".
\<close>

fun nav_candidates :: "pylib \<Rightarrow> string \<Rightarrow> nav_link list \<Rightarrow> string list option" where
  "nav_candidates lib url [] = Some []"
| "nav_candidates lib url (Link_error # rest) = None"
| "nav_candidates lib url (Link None # rest) = nav_candidates lib url rest"
| "nav_candidates lib url (Link (Some href) # rest) =
     (if href = [] then nav_candidates lib url rest
      else
        (case urljoin lib url (strip href) of
           None \<Rightarrow> None
         | Some joined \<Rightarrow>
             (let full_url = rstrip_slash joined in
              if startswith full_url ''http'' then
                (case netloc lib full_url of
                   None \<Rightarrow> None
                 | Some d1 \<Rightarrow>
                     (case netloc lib url of
                        None \<Rightarrow> None
                      | Some d2 \<Rightarrow>
                          (if d1 = d2
                           then map_option ((#) full_url) (nav_candidates lib url rest)
                           else nav_candidates lib url rest)))
              else nav_candidates lib url rest)))"

fun important_candidates :: "pylib \<Rightarrow> string \<Rightarrow> string list \<Rightarrow> string list option" where
  "important_candidates lib url [] = Some []"
| "important_candidates lib url (important_page # rest) =
     (case urljoin lib url important_page of
        None \<Rightarrow> None
      | Some joined \<Rightarrow>
          map_option ((#) (rstrip_slash joined)) (important_candidates lib url rest))"

definition important_pages :: "string list" where
  "important_pages = [''/booking'', ''/book'', ''/tours'', ''/experiences'']"

definition pages_to_check :: "pylib \<Rightarrow> string \<Rightarrow> nav_link list \<Rightarrow> string list option" where
  "pages_to_check lib url links =
     (case nav_candidates lib url (take 5 links) of
        None \<Rightarrow> None
      | Some from_nav \<Rightarrow>
          (case important_candidates lib url important_pages of
             None \<Rightarrow> None
           | Some guessed \<Rightarrow> Some (from_nav @ guessed)))"

text \<open>
  The loop over the additional pages, lines 600-619. \<^verbatim>\<open>analyze_page\<close> catches every
  exception itself, so \<^verbatim>\<open>pages_checked\<close> grows at every page that was tried.
\<close>

fun visit_pages ::
  "analyzer \<Rightarrow> pylib \<Rightarrow> site_env \<Rightarrow> string list \<Rightarrow> nat \<Rightarrow> crawl \<Rightarrow> crawl" where
  "visit_pages self lib env [] pages_checked st = st"
| "visit_pages self lib env (page_url # rest) pages_checked st =
     (if int pages_checked \<ge> max_pages_per_site (current_settings self) then st
      else
        (let st' = (case analyze_page self lib (load_page env pages_checked page_url) page_url of
                      Inl e \<Rightarrow> st
                    | Inr page_analysis \<Rightarrow> merge_sub page_analysis st)
         in visit_pages self lib env rest (pages_checked + 1)
              (st'\<lparr>navigated := navigated st' @ [page_url]\<rparr>)))"

definition crawl_start :: crawl where
  "crawl_start =
     \<lparr>has_chatbot = False, chatbot_types = [], booking_technology = [],
      ota_dependencies = [], analysis_details = None, pages_analyzed = 0, navigated = []\<rparr>"

text \<open>The body of the \<^verbatim>\<open>try\<close> of \<^verbatim>\<open>analyze_website\<close>, lines 570-622.\<close>

definition crawl_site :: "analyzer \<Rightarrow> pylib \<Rightarrow> site_env \<Rightarrow> string \<Rightarrow> crawl" where
  "crawl_site self lib env url =
     (let st0 = crawl_start\<lparr>navigated := [url]\<rparr>;
          st1 = (case analyze_page self lib (load_page env 0 url) url of
                   Inl e \<Rightarrow> st0
                 | Inr main_analysis \<Rightarrow> merge_main main_analysis st0)
      in if max_pages_per_site (current_settings self) > 1 then
           (case nav_links env of
              None \<Rightarrow> st1
            | Some links \<Rightarrow>
                (case pages_to_check lib url links of
                   None \<Rightarrow> st1
                 | Some pages \<Rightarrow> visit_pages self lib env (set_order lib pages) 1 st1))
         else st1)"

text \<open>
  \<^verbatim>\<open>analyze_website\<close>, lines 554-638: \<open>Inl\<close> is an exception that leaves the function
  (from \<^verbatim>\<open>browser.new_context\<close>, \<^verbatim>\<open>context.new_page\<close> or \<^verbatim>\<open>context.close\<close>).
\<close>

definition analyze_website ::
  "analyzer \<Rightarrow> pylib \<Rightarrow> site_env \<Rightarrow> string \<Rightarrow> string + site_analysis" where
  "analyze_website self lib env url =
     (case context_error env of
        Some e \<Rightarrow> Inl e
      | None \<Rightarrow>
          (let st = crawl_site self lib env url in
           case close_error env of
             Some e \<Rightarrow> Inl e
           | None \<Rightarrow>
               Inr \<lparr>has_chatbot = has_chatbot st,
                    chatbot_types = set_order lib (chatbot_types st),
                    booking_technology = set_order lib (booking_technology st),
                    ota_dependencies = set_order lib (ota_dependencies st),
                    analysis_details = analysis_details st,
                    pages_analyzed = pages_analyzed st\<rparr>))"

section \<open>The table\<close>

text \<open>
  The pandas data frame: its column names and its rows, a row giving each column's cell,
  \<open>None\<close> for a missing value (\<^verbatim>\<open>NaN\<close>, \<^verbatim>\<open>pd.NA\<close>). The index is the default one, so
  the label of a row is its position.
\<close>

datatype cell = Str string | Num int

type_synonym row = "string \<Rightarrow> cell option"

record dataframe =
  columns :: "string list"
  rows :: "row list"

text \<open>
  \<^verbatim>\<open>df.loc[index, col] = v\<close> for a label of the index, and \<^verbatim>\<open>df[col] = pd.NA\<close>. Both
  create the column when it is missing.
\<close>

definition set_cell :: "dataframe \<Rightarrow> nat \<Rightarrow> string \<Rightarrow> cell option \<Rightarrow> dataframe" where
  "set_cell df index col v =
     df\<lparr>columns := (if col \<in> set (columns df) then columns df else columns df @ [col]),
        rows := (rows df)[index := (rows df ! index)(col := v)]\<rparr>"

definition set_cells :: "dataframe \<Rightarrow> nat \<Rightarrow> (string \<times> cell) list \<Rightarrow> dataframe" where
  "set_cells df index kvs = fold (\<lambda>(col, v) d. set_cell d index col (Some v)) kvs df"

definition set_column_na :: "dataframe \<Rightarrow> string \<Rightarrow> dataframe" where
  "set_column_na df col =
     df\<lparr>columns := (if col \<in> set (columns df) then columns df else columns df @ [col]),
        rows := map (\<lambda>r. r(col := None)) (rows df)\<rparr>"

definition analysis_columns :: "string list" where
  "analysis_columns =
     [''has_chatbot'', ''chatbot_analysis'', ''chatbot_types_detailed'',
      ''booking_technology_summary'', ''booking_technology_detailed'',
      ''ota_analysis'', ''ota_dependencies_detailed'',
      ''prospect_evaluation'', ''pages_analyzed'',
      ''has_contact_form'', ''has_online_booking'', ''external_booking_links'',
      ''analysis_confidence'', ''last_analyzed'', ''analysis_status'']"

text \<open>Lines 755-757 of \<^verbatim>\<open>continuous_process\<close>.\<close>

definition init_columns :: "dataframe \<Rightarrow> dataframe" where
  "init_columns df =
     fold (\<lambda>col d. if col \<notin> set (columns d) then set_column_na d col else d)
       analysis_columns df"

definition status :: "row \<Rightarrow> cell option" where
  "status r = r ''analysis_status''"

definition index_list :: "dataframe \<Rightarrow> nat list" where
  "index_list df = [0..<length (rows df)]"

text \<open>
  \<^verbatim>\<open>df[df['analysis_status'].isna()].index.tolist()\<close> and
  \<^verbatim>\<open>df[df['analysis_status'] == s].index.tolist()\<close>.
\<close>

definition unprocessed_rows :: "dataframe \<Rightarrow> nat list" where
  "unprocessed_rows df = filter (\<lambda>i. status (rows df ! i) = None) (index_list df)"

definition rows_with_status :: "dataframe \<Rightarrow> string \<Rightarrow> nat list" where
  "rows_with_status df s = filter (\<lambda>i. status (rows df ! i) = Some (Str s)) (index_list df)"

section \<open>One batch\<close>

text \<open>\<^verbatim>\<open>clean_url\<close>, lines 640-647, on a cell of the table.\<close>

definition clean_url :: "cell option \<Rightarrow> string option" where
  "clean_url url =
     (case url of
        None \<Rightarrow> None
      | Some c \<Rightarrow>
          (if c = Str [] \<or> c = Num 0 then None
           else
             (let u = strip (case c of Str s \<Rightarrow> s | Num n \<Rightarrow> string_of_int n);
                  u' = (if startswith u ''http://'' \<or> startswith u ''https://'' then u
                        else ''https://'' @ u)
              in Some (rstrip_slash u'))))"

text \<open>The summaries written to the table, lines 397-434, and \<^verbatim>\<open>sep.join(xs)\<close>.\<close>

fun join :: "string \<Rightarrow> string list \<Rightarrow> string" where
  "join sep [] = []"
| "join sep [x] = x"
| "join sep (x # y # ys) = x @ sep @ join sep (y # ys)"

definition generate_chatbot_summary :: "'a analysis_scheme \<Rightarrow> string" where
  "generate_chatbot_summary a =
     (if has_chatbot a then
        (if chatbot_types a \<noteq> [] then ''YES - '' @ join '', '' (take 3 (chatbot_types a))
         else ''YES - Unknown type'')
      else ''NO'')"

definition generate_booking_summary :: "'a analysis_scheme \<Rightarrow> string" where
  "generate_booking_summary a =
     (if booking_technology a \<noteq> [] then
        (let known_platforms =
               filter (\<lambda>tech. \<not> (\<exists>p \<in> set [''custom_'', ''calendar_'', ''integrated_'',
                                              ''dynamic_'', ''network_'']. startswith tech p))
                 (booking_technology a)
         in if known_platforms \<noteq> [] then join '', '' (take 3 known_platforms)
            else ''Custom system'')
      else ''None detected'')"

definition generate_ota_summary :: "'a analysis_scheme \<Rightarrow> string" where
  "generate_ota_summary a =
     (if ota_dependencies a \<noteq> [] then
        (let known_otas =
               filter (\<lambda>ota. \<not> (\<exists>p \<in> set [''external_'', ''ota_style_'', ''availability_''].
                                   startswith ota p))
                 (ota_dependencies a)
         in if known_otas \<noteq> [] then join '', '' (take 2 known_otas)
            else ''External dependencies detected'')
      else ''None detected'')"

definition detailed :: "string list \<Rightarrow> string" where
  "detailed xs = (if xs \<noteq> [] then join ''; '' xs else ''None detected'')"

definition yes_no :: "bool \<Rightarrow> cell" where
  "yes_no b = Str (if b then ''Yes'' else ''No'')"

definition confidence :: "nat \<Rightarrow> string" where
  "confidence n = (if n \<ge> 3 then ''High'' else if n \<ge> 2 then ''Medium'' else ''Low'')"

text \<open>
  The world around one run: the library, the browser's behaviour for the crawl of row
  \<open>i\<close> in batch number \<open>b\<close>, the time written by that crawl, an exception that leaves
  \<^verbatim>\<open>process_batch\<close> number \<open>b\<close> (launching or closing the browser, writing the CSV file),
  and an exception that leaves \<^verbatim>\<open>backup_progress\<close> (number 0 is the initial backup,
  number \<open>b + 1\<close> the one after batch \<open>b\<close>).
\<close>

record world =
  library :: pylib
  site :: "nat \<Rightarrow> nat \<Rightarrow> site_env"
  clock :: "nat \<Rightarrow> nat \<Rightarrow> string"
  batch_error :: "nat \<Rightarrow> string option"
  backup_error :: "nat \<Rightarrow> string option"

text \<open>
  \<^verbatim>\<open>analyze_with_semaphore\<close>, lines 683-712, for the task of row \<open>index\<close>: the writes
  of the \<^verbatim>\<open>try\<close> when \<^verbatim>\<open>analyze_website\<close> returns, those of the \<^verbatim>\<open>except\<close> when it raises.
\<close>

definition completed_cells :: "site_analysis \<Rightarrow> string \<Rightarrow> (string \<times> cell) list" where
  "completed_cells a now =
     [(''has_chatbot'', yes_no (has_chatbot a)),
      (''chatbot_analysis'', Str (generate_chatbot_summary a)),
      (''chatbot_types_detailed'', Str (detailed (chatbot_types a))),
      (''booking_technology_summary'', Str (generate_booking_summary a)),
      (''booking_technology_detailed'', Str (detailed (booking_technology a))),
      (''ota_analysis'', Str (generate_ota_summary a)),
      (''ota_dependencies_detailed'', Str (detailed (ota_dependencies a))),
      (''prospect_evaluation'', Str (generate_prospect_evaluation a)),
      (''pages_analyzed'', Num (int (pages_analyzed a))),
      (''has_contact_form'',
         yes_no (case analysis_details a of None \<Rightarrow> False | Some d \<Rightarrow> has_contact_form d)),
      (''has_online_booking'', yes_no (details_online_booking (analysis_details a))),
      (''external_booking_links'',
         Num (case analysis_details a of None \<Rightarrow> 0
              | Some d \<Rightarrow> int (external_booking_links d))),
      (''analysis_confidence'', Str (confidence (pages_analyzed a))),
      (''last_analyzed'', Str now),
      (''analysis_status'', Str ''COMPLETED'')]"

definition failed_cells :: "string \<Rightarrow> string \<Rightarrow> (string \<times> cell) list" where
  "failed_cells e now =
     [(''has_chatbot'', Str (''Error: '' @ take 100 e)),
      (''analysis_status'', Str ''FAILED''),
      (''last_analyzed'', Str now)]"

definition analyze_with_semaphore ::
  "analyzer \<Rightarrow> world \<Rightarrow> nat \<Rightarrow> dataframe \<Rightarrow> nat \<times> string \<Rightarrow> dataframe" where
  "analyze_with_semaphore self w b df task =
     (case task of (index, url) \<Rightarrow>
        (case analyze_website self (library w) (site w b index) url of
           Inr a \<Rightarrow> set_cells df index (completed_cells a (clock w b index))
         | Inl e \<Rightarrow> set_cells df index (failed_cells e (clock w b index))))"

definition url_columns :: "string list" where
  "url_columns =
     [''Website URL'', ''website url'', ''url'', ''domain'', ''website'', ''company_url'',
      ''site'', ''Website'', ''URL'', ''Domain'']"

definition url_column :: "dataframe \<Rightarrow> string option" where
  "url_column df = find (\<lambda>col. col \<in> set (columns df)) url_columns"

text \<open>
  The loop of lines 718-726: a row with a clean URL becomes a task, any other row is
  marked at once.
\<close>

definition invalid_cells :: "(string \<times> cell) list" where
  "invalid_cells = [(''has_chatbot'', Str ''Invalid URL''), (''analysis_status'', Str ''INVALID_URL'')]"

fun collect_tasks ::
  "string \<Rightarrow> nat list \<Rightarrow> dataframe \<Rightarrow> (nat \<times> string) list \<Rightarrow> dataframe \<times> (nat \<times> string) list" where
  "collect_tasks col [] df tasks = (df, tasks)"
| "collect_tasks col (index # rest) df tasks =
     (case clean_url ((rows df ! index) col) of
        Some u \<Rightarrow>
          (if u \<noteq> [] then collect_tasks col rest df (tasks @ [(index, u)])
           else collect_tasks col rest (set_cells df index invalid_cells) tasks)
      | None \<Rightarrow> collect_tasks col rest (set_cells df index invalid_cells) tasks)"

text \<open>
  \<^verbatim>\<open>process_batch\<close>, lines 668-734. The result is the table and the tasks handed to
  \<^verbatim>\<open>asyncio.gather\<close> (one crawl each); \<open>Inl\<close> is an exception that leaves the function.
  Without a URL column the function returns at once. The tasks write to rows of their
  own, each in one step between two \<^verbatim>\<open>await\<close>s, so the table after the gather does not
  depend on the order in which they finish: they are folded in the order of creation.
\<close>

definition process_batch ::
  "analyzer \<Rightarrow> world \<Rightarrow> nat \<Rightarrow> dataframe \<Rightarrow> nat list
     \<Rightarrow> string + dataframe \<times> (nat \<times> string) list" where
  "process_batch self w b df batch_indices =
     (case url_column df of
        None \<Rightarrow> Inr (df, [])
      | Some col \<Rightarrow>
          (case batch_error w b of
             Some e \<Rightarrow> Inl e
           | None \<Rightarrow>
               (case collect_tasks col batch_indices df [] of
                  (df1, tasks) \<Rightarrow> Inr (fold (\<lambda>t d. analyze_with_semaphore self w b d t) tasks df1, tasks))))"

section \<open>The phases\<close>

text \<open>\<^verbatim>\<open>xs[:n]\<close>.\<close>

definition py_take :: "int \<Rightarrow> 'a list \<Rightarrow> 'a list" where
  "py_take n xs = (if n \<ge> 0 then take (nat n) xs else take (length xs - nat (- n)) xs)"

text \<open>
  The state of a run between two batches: the number of the next batch, the table, and
  the crawls dispatched so far (row and URL).
\<close>

type_synonym run = "nat \<times> dataframe \<times> (nat \<times> string) list"

text \<open>
  The loop of phase 1, lines 769-788. A loop that does not end has the value \<open>None\<close>.
\<close>

partial_function (option) aggressive_loop ::
  "analyzer \<Rightarrow> world \<Rightarrow> nat \<Rightarrow> dataframe \<Rightarrow> (nat \<times> string) list \<Rightarrow> nat list
     \<Rightarrow> (string + run) option" where
  "aggressive_loop self w b df log unprocessed =
     (if unprocessed = [] then Some (Inr (b, df, log))
      else
        (case process_batch self w b df
                (py_take (batch_size (current_settings self)) unprocessed) of
           Inl e \<Rightarrow> Some (Inl e)
         | Inr (df', tasks) \<Rightarrow>
             (if batch_size (current_settings self) * 5 = 0
              then Some (Inl ''ZeroDivisionError'')
              else if int (length (rows_with_status df' ''COMPLETED''))
                        mod (batch_size (current_settings self) * 5) = 0
                      \<and> backup_error w (Suc b) \<noteq> None
              then Some (Inl (the (backup_error w (Suc b))))
              else aggressive_loop self w (Suc b) df' (log @ tasks) (unprocessed_rows df'))))"

text \<open>The loops of phases 2 and 3, lines 803-817 and 832-845.\<close>

definition unprocessed_in :: "dataframe \<Rightarrow> nat list \<Rightarrow> nat list" where
  "unprocessed_in df pool =
     filter (\<lambda>i. i \<in> set pool \<and> status (rows df ! i) = None) (index_list df)"

partial_function (option) retry_loop ::
  "analyzer \<Rightarrow> world \<Rightarrow> nat list \<Rightarrow> nat \<Rightarrow> dataframe \<Rightarrow> (nat \<times> string) list \<Rightarrow> nat list
     \<Rightarrow> (string + run) option" where
  "retry_loop self w pool b df log unprocessed =
     (if unprocessed = [] then Some (Inr (b, df, log))
      else
        (case process_batch self w b df
                (py_take (batch_size (current_settings self)) unprocessed) of
           Inl e \<Rightarrow> Some (Inl e)
         | Inr (df', tasks) \<Rightarrow>
             retry_loop self w pool (Suc b) df' (log @ tasks) (unprocessed_in df' pool)))"

text \<open>
  The step between two phases, lines 791-801 and 820-830: the rows whose status is
  \<^verbatim>\<open>FAILED\<close> are collected and their status is set to \<^verbatim>\<open>pd.NA\<close>.
\<close>

definition reset_status :: "dataframe \<Rightarrow> nat list \<Rightarrow> dataframe" where
  "reset_status df indices = fold (\<lambda>i d. set_cell d i ''analysis_status'' None) indices df"

definition phase_reset :: "dataframe \<Rightarrow> nat list \<times> dataframe" where
  "phase_reset df =
     (let failed_companies = rows_with_status df ''FAILED''
      in (failed_companies, reset_status df failed_companies))"

definition retry_phase ::
  "string \<Rightarrow> settings \<Rightarrow> analyzer \<Rightarrow> world \<Rightarrow> run \<Rightarrow> (string + run) option" where
  "retry_phase name chosen self w st =
     (case st of (b, df, log) \<Rightarrow>
        (case phase_reset df of (failed_companies, df') \<Rightarrow>
           if failed_companies \<noteq> [] then
             retry_loop (self\<lparr>phase := name, current_settings := chosen\<rparr>) w failed_companies
               b df' log failed_companies
           else Some (Inr (b, df, log))))"

text \<open>
  \<^verbatim>\<open>continuous_process\<close>, lines 736-846, from the loaded table to the table handed to
  \<^verbatim>\<open>print_final_report\<close>.
\<close>

definition on_success ::
  "(string + run) option \<Rightarrow> (run \<Rightarrow> (string + run) option) \<Rightarrow> (string + run) option" where
  "on_success r f =
     (case r of None \<Rightarrow> None | Some (Inl e) \<Rightarrow> Some (Inl e) | Some (Inr st) \<Rightarrow> f st)"

definition continuous_process :: "analyzer \<Rightarrow> world \<Rightarrow> dataframe \<Rightarrow> (string + run) option" where
  "continuous_process self w df =
     (let df0 = init_columns df in
      case backup_error w 0 of
        Some e \<Rightarrow> Some (Inl e)
      | None \<Rightarrow>
          on_success
            (aggressive_loop
               (self\<lparr>phase := ''Aggressive Processing'',
                     current_settings := aggressive_settings self\<rparr>)
               w 0 df0 [] (unprocessed_rows df0))
            (\<lambda>st1. on_success
               (retry_phase ''Conservative Retry'' (conservative_settings self) self w st1)
               (retry_phase ''Patient Processing'' (patient_settings self) self w)))"

section \<open>Notions used in the proofs\<close>

text \<open>The cells \<open>kvs\<close> written to a row, one after the other.\<close>

definition write_row :: "(string \<times> cell) list \<Rightarrow> row \<Rightarrow> row" where
  "write_row kvs r = fold (\<lambda>(c, v) r. r(c \<mapsto> v)) kvs r"

text \<open>The test of line 721: \<^verbatim>\<open>clean_url\<close> gives a non-empty string for the row's URL cell.\<close>

definition valid_url :: "string \<Rightarrow> row \<Rightarrow> bool" where
  "valid_url col r = (\<exists>u. clean_url (r col) = Some u \<and> u \<noteq> [])"

text \<open>The three statuses that \<^verbatim>\<open>process_batch\<close> writes.\<close>

definition terminal :: "cell option set" where
  "terminal = {Some (Str ''COMPLETED''), Some (Str ''FAILED''), Some (Str ''INVALID_URL'')}"

text \<open>
  What a batch may do to the table: the rows stay in place, columns are added among the
  analysis columns only, rows outside \<open>B\<close> and cells outside the analysis columns keep
  their value, and a status either stays or becomes one of the three written ones.
\<close>

definition evolves :: "nat set \<Rightarrow> dataframe \<Rightarrow> dataframe \<Rightarrow> bool" where
  "evolves B df df' =
     (length (rows df') = length (rows df)
      \<and> set (columns df) \<subseteq> set (columns df')
      \<and> set (columns df') \<subseteq> set (columns df) \<union> set analysis_columns
      \<and> (\<forall>j. j \<notin> B \<longrightarrow> rows df' ! j = rows df ! j)
      \<and> (\<forall>j c. c \<notin> set analysis_columns \<longrightarrow> (rows df' ! j) c = (rows df ! j) c)
      \<and> (\<forall>j. status (rows df' ! j) = status (rows df ! j) \<or> status (rows df' ! j) \<in> terminal))"

text \<open>The cells that the task of a row writes.\<close>

definition task_cells :: "analyzer \<Rightarrow> world \<Rightarrow> nat \<Rightarrow> nat \<times> string \<Rightarrow> (string \<times> cell) list" where
  "task_cells self w b task =
     (case analyze_website self (library w) (site w b (fst task)) (snd task) of
        Inr a \<Rightarrow> completed_cells a (clock w b (fst task))
      | Inl e \<Rightarrow> failed_cells e (clock w b (fst task)))"

text \<open>Every status is unset or one of the three written ones; every status is one of the three.\<close>

definition statuses_ok :: "dataframe \<Rightarrow> bool" where
  "statuses_ok df = (\<forall>i < length (rows df). status (rows df ! i) \<in> insert None terminal)"

definition settled :: "dataframe \<Rightarrow> bool" where
  "settled df = (\<forall>i < length (rows df). status (rows df ! i) \<in> terminal)"

text \<open>What one loop adds to the log: at most one crawl per row, for rows that now have a status.\<close>

definition fresh_log :: "(nat \<times> string) list \<Rightarrow> dataframe \<Rightarrow> (nat \<times> string) list \<Rightarrow> bool" where
  "fresh_log log0 d l =
     (\<exists>new. l = log0 @ new \<and> distinct (map fst new)
        \<and> (\<forall>i \<in> fst ` set new. i < length (rows d) \<and> status (rows d ! i) \<noteq> None))"

section \<open>The table under a batch\<close>


lemma set_cell_length: "length (rows (set_cell df i c v)) = length (rows df)"
  by (simp add: set_cell_def)

lemma set_cell_columns: "set (columns (set_cell df i c v)) = insert c (set (columns df))"
  by (auto simp: set_cell_def)

lemma set_cell_row:
  "rows (set_cell df i c v) ! j =
     (if j = i \<and> i < length (rows df) then (rows df ! i)(c := v) else rows df ! j)"
  by (cases "i < length (rows df)") (auto simp: set_cell_def nth_list_update list_update_beyond)

lemma set_cells_length: "length (rows (set_cells df i kvs)) = length (rows df)"
  unfolding set_cells_def
  by (induction kvs arbitrary: df) (auto simp: set_cell_length)

lemma set_cells_columns: "set (columns (set_cells df i kvs)) = fst ` set kvs \<union> set (columns df)"
  unfolding set_cells_def
  by (induction kvs arbitrary: df) (auto simp: set_cell_columns)

lemma set_cells_row:
  "rows (set_cells df i kvs) ! j =
     (if j = i \<and> i < length (rows df) then write_row kvs (rows df ! i) else rows df ! j)"
  unfolding set_cells_def write_row_def
proof (induction kvs arbitrary: df)
  case Nil
  then show ?case by simp
next
  case (Cons kv kvs)
  obtain c v where kv: "kv = (c, v)" by (cases kv)
  show ?case
    by (simp add: kv Cons.IH set_cell_length set_cell_row del: fun_upd_apply)
qed

lemma write_row_other: "c \<notin> fst ` set kvs \<Longrightarrow> write_row kvs r c = r c"
  unfolding write_row_def
  by (induction kvs arbitrary: r) auto

lemma status_completed: "status (write_row (completed_cells a now) r) = Some (Str ''COMPLETED'')"
  by (simp add: status_def write_row_def completed_cells_def)

lemma status_failed: "status (write_row (failed_cells e now) r) = Some (Str ''FAILED'')"
  by (simp add: status_def write_row_def failed_cells_def)

lemma status_invalid: "status (write_row invalid_cells r) = Some (Str ''INVALID_URL'')"
  by (simp add: status_def write_row_def invalid_cells_def)

lemma completed_cells_keys: "fst ` set (completed_cells a now) \<subseteq> set analysis_columns"
  by (simp add: completed_cells_def analysis_columns_def)

lemma failed_cells_keys: "fst ` set (failed_cells e now) \<subseteq> set analysis_columns"
  by (simp add: failed_cells_def analysis_columns_def)

lemma invalid_cells_keys: "fst ` set invalid_cells \<subseteq> set analysis_columns"
  by (simp add: invalid_cells_def analysis_columns_def)

lemma url_not_analysis: "c \<in> set url_columns \<Longrightarrow> c \<notin> set analysis_columns"
  by (auto simp: url_columns_def analysis_columns_def)

lemma url_column_Some: "url_column df = Some c \<Longrightarrow> c \<in> set url_columns \<and> c \<in> set (columns df)"
  unfolding url_column_def by (auto simp: find_Some_iff)

lemma write_row_keys_only:
  "fst ` set kvs \<subseteq> set analysis_columns \<Longrightarrow> c \<notin> set analysis_columns \<Longrightarrow> write_row kvs r c = r c"
  by (rule write_row_other) auto

lemma valid_url_write_row:
  "fst ` set kvs \<subseteq> set analysis_columns \<Longrightarrow> col \<in> set url_columns \<Longrightarrow>
   valid_url col (write_row kvs r) = valid_url col r"
  by (simp add: valid_url_def write_row_keys_only url_not_analysis)

lemma collect_tasks_effect:
  assumes "col \<in> set url_columns"
  shows "collect_tasks col batch df tasks = (df1, tasks1) \<Longrightarrow>
     length (rows df1) = length (rows df)
     \<and> set (columns df) \<subseteq> set (columns df1)
     \<and> set (columns df1) \<subseteq> set (columns df) \<union> set analysis_columns
     \<and> (\<forall>j. rows df1 ! j =
            (if j \<in> set batch \<and> j < length (rows df) \<and> \<not> valid_url col (rows df ! j)
             then write_row invalid_cells (rows df ! j) else rows df ! j))
     \<and> tasks1 = tasks @ map (\<lambda>i. (i, the (clean_url ((rows df ! i) col))))
                          (filter (\<lambda>i. valid_url col (rows df ! i)) batch)"
proof (induction batch arbitrary: df tasks)
  case Nil
  then show ?case by simp
next
  case (Cons i rest)
  show ?case
  proof (cases "valid_url col (rows df ! i)")
    case True
    then obtain u where u: "clean_url ((rows df ! i) col) = Some u" "u \<noteq> []"
      by (auto simp: valid_url_def)
    with Cons.prems have "collect_tasks col rest df (tasks @ [(i, u)]) = (df1, tasks1)"
      by simp
    from Cons.IH[OF this] show ?thesis using True u by auto
  next
    case False
    let ?d = "set_cells df i invalid_cells"
    from False Cons.prems have "collect_tasks col rest ?d tasks = (df1, tasks1)"
      by (auto simp: valid_url_def split: option.splits if_splits)
    note IH = Cons.IH[OF this]
    have same: "\<And>j. (rows ?d ! j) col = (rows df ! j) col"
      using assms by (simp add: set_cells_row write_row_keys_only invalid_cells_keys url_not_analysis)
    have valid: "\<And>j. valid_url col (rows ?d ! j) = valid_url col (rows df ! j)"
      by (simp add: valid_url_def same)
    have idem: "\<And>r. write_row invalid_cells (write_row invalid_cells r) = write_row invalid_cells r"
      by (simp add: write_row_def invalid_cells_def)
    show ?thesis
    proof (intro conjI allI)
      show "length (rows df1) = length (rows df)" using IH by (simp add: set_cells_length)
      show "set (columns df) \<subseteq> set (columns df1)" using IH by (auto simp: set_cells_columns)
      show "set (columns df1) \<subseteq> set (columns df) \<union> set analysis_columns"
        using IH invalid_cells_keys unfolding set_cells_columns by blast
      show "tasks1 = tasks @ map (\<lambda>i. (i, the (clean_url ((rows df ! i) col))))
                          (filter (\<lambda>i. valid_url col (rows df ! i)) (i # rest))"
        using IH False by (simp add: valid same)
      fix j
      show "rows df1 ! j =
            (if j \<in> set (i # rest) \<and> j < length (rows df) \<and> \<not> valid_url col (rows df ! j)
             then write_row invalid_cells (rows df ! j) else rows df ! j)"
        using IH False by (auto simp: valid set_cells_length set_cells_row idem)
    qed
  qed
qed

lemma evolves_refl: "evolves B df df"
  by (simp add: evolves_def)

lemma evolves_trans: "evolves B df df' \<Longrightarrow> evolves B df' df'' \<Longrightarrow> evolves B df df''"
  unfolding evolves_def by (intro conjI; (metis | blast))

lemma evolves_mono: "evolves A df df' \<Longrightarrow> A \<subseteq> B \<Longrightarrow> evolves B df df'"
  unfolding evolves_def by blast

lemma evolves_set_cells:
  assumes "fst ` set kvs \<subseteq> set analysis_columns" "status (write_row kvs (rows df ! i)) \<in> terminal"
    "i \<in> B"
  shows "evolves B df (set_cells df i kvs)"
  unfolding evolves_def using assms
  by (auto simp: set_cells_length set_cells_columns set_cells_row write_row_keys_only)

lemma analyze_with_semaphore_cells:
  "analyze_with_semaphore self w b df task = set_cells df (fst task) (task_cells self w b task)"
  by (cases task) (simp add: analyze_with_semaphore_def task_cells_def split: sum.splits)

lemma task_cells_keys: "fst ` set (task_cells self w b task) \<subseteq> set analysis_columns"
  unfolding task_cells_def using completed_cells_keys failed_cells_keys
  by (auto split: sum.splits)

lemma task_cells_status:
  "status (write_row (task_cells self w b task) r) \<in> {Some (Str ''COMPLETED''), Some (Str ''FAILED'')}"
  unfolding task_cells_def by (simp add: status_completed status_failed split: sum.splits)

lemma tasks_fold_effect:
  "df2 = fold (\<lambda>t d. analyze_with_semaphore self w b d t) tasks df1 \<Longrightarrow>
   evolves (fst ` set tasks) df1 df2
   \<and> (\<forall>j \<in> fst ` set tasks. j < length (rows df1) \<longrightarrow>
         status (rows df2 ! j) \<in> {Some (Str ''COMPLETED''), Some (Str ''FAILED'')})"
proof (induction tasks arbitrary: df1 df2 rule: rev_induct)
  case Nil
  then show ?case by (simp add: evolves_refl)
next
  case (snoc t tasks)
  define dm where "dm = fold (\<lambda>t d. analyze_with_semaphore self w b d t) tasks df1"
  have df2: "df2 = set_cells dm (fst t) (task_cells self w b t)"
    using snoc.prems by (simp add: dm_def analyze_with_semaphore_cells)
  from snoc.IH[OF dm_def] have ev1: "evolves (fst ` set tasks) df1 dm"
    and st1: "\<forall>j \<in> fst ` set tasks. j < length (rows df1) \<longrightarrow>
         status (rows dm ! j) \<in> {Some (Str ''COMPLETED''), Some (Str ''FAILED'')}"
    by auto
  have len: "length (rows dm) = length (rows df1)" using ev1 by (simp add: evolves_def)
  have ev2: "evolves (fst ` set (tasks @ [t])) dm df2"
    unfolding df2
    apply (rule evolves_set_cells)
    using task_cells_keys task_cells_status[of self w b t "rows dm ! fst t"]
    by (auto simp: terminal_def)
  have "evolves (fst ` set (tasks @ [t])) df1 df2"
    by (rule evolves_trans[OF evolves_mono[OF ev1] ev2]) auto
  moreover have "\<forall>j \<in> fst ` set (tasks @ [t]). j < length (rows df1) \<longrightarrow>
         status (rows df2 ! j) \<in> {Some (Str ''COMPLETED''), Some (Str ''FAILED'')}"
  proof (intro ballI impI)
    fix j assume j: "j \<in> fst ` set (tasks @ [t])" "j < length (rows df1)"
    show "status (rows df2 ! j) \<in> {Some (Str ''COMPLETED''), Some (Str ''FAILED'')}"
    proof (cases "j = fst t")
      case True
      then show ?thesis using j len task_cells_status[of self w b t "rows dm ! fst t"]
        by (simp add: df2 set_cells_row)
    next
      case False
      then have "j \<in> fst ` set tasks" using j by auto
      with st1 j have "status (rows dm ! j) \<in> {Some (Str ''COMPLETED''), Some (Str ''FAILED'')}"
        by blast
      with False show ?thesis by (simp add: df2 set_cells_row)
    qed
  qed
  ultimately show ?case by blast
qed

lemma collect_tasks_evolves:
  assumes "col \<in> set url_columns" "collect_tasks col batch df [] = (df1, tasks1)"
  shows "evolves (set batch) df df1"
  using collect_tasks_effect[OF assms] invalid_cells_keys
  by (auto simp: evolves_def write_row_keys_only status_invalid terminal_def)

lemma process_batch_no_url:
  "url_column df = None \<Longrightarrow> process_batch self w b df batch = Inr (df, [])"
  by (simp add: process_batch_def)

lemma process_batch_effect:
  assumes "process_batch self w b df batch = Inr (df', tasks)" "url_column df = Some col"
  shows "evolves (set batch) df df'"
    and "tasks = map (\<lambda>i. (i, the (clean_url ((rows df ! i) col))))
                   (filter (\<lambda>i. valid_url col (rows df ! i)) batch)"
    and "\<And>j. j \<in> set batch \<Longrightarrow> j < length (rows df) \<Longrightarrow> valid_url col (rows df ! j) \<Longrightarrow>
           status (rows df' ! j) \<in> {Some (Str ''COMPLETED''), Some (Str ''FAILED'')}"
    and "\<And>j. j \<in> set batch \<Longrightarrow> j < length (rows df) \<Longrightarrow> \<not> valid_url col (rows df ! j) \<Longrightarrow>
           rows df' ! j = write_row invalid_cells (rows df ! j)"
proof -
  have col: "col \<in> set url_columns" using assms(2) url_column_Some by blast
  obtain df1 tasks1 where ct: "collect_tasks col batch df [] = (df1, tasks1)"
    by (cases "collect_tasks col batch df []")
  from assms have df': "df' = fold (\<lambda>t d. analyze_with_semaphore self w b d t) tasks df1"
    and tasks: "tasks = tasks1"
    by (auto simp: process_batch_def ct split: option.splits)
  note eff = collect_tasks_effect[OF col ct]
  note ev1 = collect_tasks_evolves[OF col ct]
  note fold = tasks_fold_effect[OF df']
  show t: "tasks = map (\<lambda>i. (i, the (clean_url ((rows df ! i) col))))
                   (filter (\<lambda>i. valid_url col (rows df ! i)) batch)"
    using eff tasks by simp
  have sub: "fst ` set tasks \<subseteq> set batch" unfolding t by auto
  show "evolves (set batch) df df'"
    using evolves_trans[OF ev1 evolves_mono[OF conjunct1[OF fold] sub]] .
  show "status (rows df' ! j) \<in> {Some (Str ''COMPLETED''), Some (Str ''FAILED'')}"
    if "j \<in> set batch" "j < length (rows df)" "valid_url col (rows df ! j)" for j
  proof -
    have "j \<in> fst ` set tasks" unfolding t using that by (auto simp: image_iff)
    moreover have "j < length (rows df1)" using eff that by simp
    ultimately show ?thesis using fold by blast
  qed
  show "rows df' ! j = write_row invalid_cells (rows df ! j)"
    if "j \<in> set batch" "j < length (rows df)" "\<not> valid_url col (rows df ! j)" for j
  proof -
    have "j \<notin> fst ` set tasks" unfolding t using that by auto
    then have "rows df' ! j = rows df1 ! j" using fold by (simp add: evolves_def)
    then show ?thesis using eff that by simp
  qed
qed

lemma process_batch_evolves:
  assumes "process_batch self w b df batch = Inr (df', tasks)"
  shows "evolves (set batch) df df'"
proof (cases "url_column df")
  case None
  with assms show ?thesis by (simp add: process_batch_def evolves_refl)
next
  case (Some col)
  from process_batch_effect(1)[OF assms Some] show ?thesis .
qed

lemma process_batch_settles:
  assumes "process_batch self w b df batch = Inr (df', tasks)" "url_column df \<noteq> None"
    "j \<in> set batch" "j < length (rows df)"
  shows "status (rows df' ! j) \<in> terminal"
proof -
  from assms(2) obtain col where col: "url_column df = Some col" by blast
  show ?thesis
  proof (cases "valid_url col (rows df ! j)")
    case True
    from process_batch_effect(3)[OF assms(1) col assms(3,4) True] show ?thesis
      by (auto simp: terminal_def)
  next
    case False
    from process_batch_effect(4)[OF assms(1) col assms(3,4) False] show ?thesis
      by (simp add: status_invalid terminal_def)
  qed
qed

lemma py_take_subset: "set (py_take n xs) \<subseteq> set xs"
  by (auto simp: py_take_def dest: in_set_takeD)

lemma py_take_distinct: "distinct xs \<Longrightarrow> distinct (py_take n xs)"
  by (simp add: py_take_def)

lemma py_take_hd: "0 < n \<Longrightarrow> xs \<noteq> [] \<Longrightarrow> hd xs \<in> set (py_take n xs)"
  by (cases xs; cases "nat n") (auto simp: py_take_def)

lemma unprocessed_rows_distinct: "distinct (unprocessed_rows df)"
  by (simp add: unprocessed_rows_def index_list_def)

lemma unprocessed_in_distinct: "distinct (unprocessed_in df pool)"
  by (simp add: unprocessed_in_def index_list_def)

lemma unprocessed_in_subset: "set (unprocessed_in df pool) \<subseteq> set (unprocessed_rows df)"
  by (auto simp: unprocessed_in_def unprocessed_rows_def)

lemma aggressive_loop_inv:
  assumes run: "aggressive_loop self w b df log u = Some (Inr (b', df', log'))"
    and u: "u = unprocessed_rows df" and I: "I df log"
    and step: "\<And>b d l batch d2 tasks. I d l \<Longrightarrow> distinct batch \<Longrightarrow>
                 set batch \<subseteq> set (unprocessed_rows d) \<Longrightarrow>
                 process_batch self w b d batch = Inr (d2, tasks) \<Longrightarrow> I d2 (l @ tasks)"
  shows "I df' log' \<and> unprocessed_rows df' = []"
proof -
  have gen: "aggressive_loop s v b df log u = Some y \<Longrightarrow>
      (s = self \<and> v = w \<and> u = unprocessed_rows df \<and> I df log \<and> y = Inr (b', df', log')
         \<longrightarrow> I df' log' \<and> unprocessed_rows df' = [])" for s v b df log u y
  proof (induction s v b df log u y rule: aggressive_loop.raw_induct[rotated 1, consumes 1, case_names 1])
    case (1 f s v b df log u y)
    show ?case
    proof (intro impI, elim conjE)
      assume a: "s = self" "v = w" "u = unprocessed_rows df" "I df log" "y = Inr (b', df', log')"
      show "I df' log' \<and> unprocessed_rows df' = []"
      proof (cases "u = []")
        case True
        with 1(2) a show ?thesis by auto
      next
        case False
        let ?batch = "py_take (batch_size (current_settings s)) u"
        from False 1(2) a obtain d2 tasks where
          pb: "process_batch s v b df ?batch = Inr (d2, tasks)"
          and rec: "f s v (Suc b) d2 (log @ tasks) (unprocessed_rows d2) = Some y"
          by (auto split: sum.splits if_splits)
        have "I d2 (log @ tasks)"
          using step[OF a(4) _ _ pb[unfolded a(1,2)]] a(3) py_take_subset py_take_distinct
            unprocessed_rows_distinct by (metis a(1))
        with 1(1)[OF rec] a show ?thesis by simp
      qed
    qed
  qed
  from gen[OF run] u I show ?thesis by simp
qed

lemma retry_loop_inv:
  assumes run: "retry_loop self w pool b df log u = Some (Inr (b', df', log'))"
    and u: "u = unprocessed_in df pool" and I: "I df log"
    and step: "\<And>b d l batch d2 tasks. I d l \<Longrightarrow> distinct batch \<Longrightarrow>
                 set batch \<subseteq> set (unprocessed_in d pool) \<Longrightarrow>
                 process_batch self w b d batch = Inr (d2, tasks) \<Longrightarrow> I d2 (l @ tasks)"
  shows "I df' log' \<and> unprocessed_in df' pool = []"
proof -
  have gen: "retry_loop s v p b df log u = Some y \<Longrightarrow>
      (s = self \<and> v = w \<and> p = pool \<and> u = unprocessed_in df pool \<and> I df log
         \<and> y = Inr (b', df', log')
         \<longrightarrow> I df' log' \<and> unprocessed_in df' pool = [])" for s v p b df log u y
  proof (induction s v p b df log u y rule: retry_loop.raw_induct[rotated 1, consumes 1, case_names 1])
    case (1 f s v p b df log u y)
    show ?case
    proof (intro impI, elim conjE)
      assume a: "s = self" "v = w" "p = pool" "u = unprocessed_in df pool" "I df log"
        "y = Inr (b', df', log')"
      show "I df' log' \<and> unprocessed_in df' pool = []"
      proof (cases "u = []")
        case True
        with 1(2) a show ?thesis by auto
      next
        case False
        let ?batch = "py_take (batch_size (current_settings s)) u"
        from False 1(2) a obtain d2 tasks where
          pb: "process_batch s v b df ?batch = Inr (d2, tasks)"
          and rec: "f s v p (Suc b) d2 (log @ tasks) (unprocessed_in d2 p) = Some y"
          by (auto split: sum.splits if_splits)
        have "I d2 (log @ tasks)"
          using step[OF a(5) _ _ pb[unfolded a(1,2)]] a(4) py_take_subset py_take_distinct
            unprocessed_in_distinct by (metis a(1))
        with 1(1)[OF rec] a show ?thesis by simp
      qed
    qed
  qed
  from gen[OF run] u I show ?thesis by simp
qed

lemma url_column_cong:
  assumes "set (columns df) \<subseteq> set (columns df')"
    "set (columns df') \<subseteq> set (columns df) \<union> set analysis_columns"
  shows "url_column df' = url_column df"
proof -
  have "\<And>c. c \<in> set url_columns \<Longrightarrow> (c \<in> set (columns df')) = (c \<in> set (columns df))"
    using assms url_not_analysis by blast
  then show ?thesis unfolding url_column_def by (auto intro: find_cong)
qed

lemma url_column_evolves: "evolves B df df' \<Longrightarrow> url_column df' = url_column df"
  by (rule url_column_cong) (auto simp: evolves_def)

lemma unprocessed_rows_evolves:
  assumes "evolves B df df'"
  shows "unprocessed_rows df' = filter (\<lambda>i. status (rows df' ! i) = None) (unprocessed_rows df)"
proof -
  have "\<And>i. status (rows df' ! i) = None \<Longrightarrow> status (rows df ! i) = None"
    using assms by (auto simp: evolves_def terminal_def) (metis option.distinct(1))+
  then show ?thesis using assms
    by (auto simp: unprocessed_rows_def index_list_def evolves_def intro: filter_cong)
qed

lemma unprocessed_in_evolves:
  assumes "evolves B df df'"
  shows "unprocessed_in df' pool =
           filter (\<lambda>i. status (rows df' ! i) = None) (unprocessed_in df pool)"
proof -
  have "\<And>i. status (rows df' ! i) = None \<Longrightarrow> status (rows df ! i) = None"
    using assms by (auto simp: evolves_def terminal_def) (metis option.distinct(1))+
  then show ?thesis using assms
    by (auto simp: unprocessed_in_def index_list_def evolves_def intro: filter_cong)
qed

lemma in_unprocessed_rows:
  "i \<in> set (unprocessed_rows df) \<longleftrightarrow> i < length (rows df) \<and> status (rows df ! i) = None"
  by (auto simp: unprocessed_rows_def index_list_def)

lemma in_unprocessed_in:
  "i \<in> set (unprocessed_in df pool) \<longleftrightarrow>
     i < length (rows df) \<and> i \<in> set pool \<and> status (rows df ! i) = None"
  by (auto simp: unprocessed_in_def index_list_def)

lemma terminal_not_None: "x \<in> terminal \<Longrightarrow> x \<noteq> None"
  by (auto simp: terminal_def)

lemma batch_shrinks_rows:
  assumes pb: "process_batch self w b df batch = Inr (df', tasks)"
    and url: "url_column df \<noteq> None"
    and sub: "set batch \<subseteq> set (unprocessed_rows df)" and ne: "batch \<noteq> []"
  shows "length (unprocessed_rows df') < length (unprocessed_rows df)"
proof -
  have hd: "hd batch \<in> set (unprocessed_rows df)" using sub ne by auto
  then have "hd batch < length (rows df)" by (simp add: in_unprocessed_rows)
  from process_batch_settles[OF pb url _ this] ne
  have "status (rows df' ! hd batch) \<noteq> None" by (auto dest: terminal_not_None)
  with hd show ?thesis
    unfolding unprocessed_rows_evolves[OF process_batch_evolves[OF pb]]
    by (intro length_filter_less) auto
qed

lemma batch_shrinks_in:
  assumes pb: "process_batch self w b df batch = Inr (df', tasks)"
    and url: "url_column df \<noteq> None"
    and sub: "set batch \<subseteq> set (unprocessed_in df pool)" and ne: "batch \<noteq> []"
  shows "length (unprocessed_in df' pool) < length (unprocessed_in df pool)"
proof -
  have hd: "hd batch \<in> set (unprocessed_in df pool)" using sub ne by auto
  then have "hd batch < length (rows df)" by (simp add: in_unprocessed_in)
  from process_batch_settles[OF pb url _ this] ne
  have "status (rows df' ! hd batch) \<noteq> None" by (auto dest: terminal_not_None)
  with hd show ?thesis
    unfolding unprocessed_in_evolves[OF process_batch_evolves[OF pb]]
    by (intro length_filter_less) auto
qed

lemma py_take_nonempty: "0 < n \<Longrightarrow> xs \<noteq> [] \<Longrightarrow> py_take n xs \<noteq> []"
  using py_take_hd by fastforce

lemma aggressive_loop_terminates:
  assumes bs: "0 < batch_size (current_settings self)"
  shows "url_column df \<noteq> None \<Longrightarrow> u = unprocessed_rows df \<Longrightarrow>
         \<exists>r. aggressive_loop self w b df log u = Some r"
proof (induction "length u" arbitrary: b df log u rule: less_induct)
  case less
  show ?case
  proof (cases "u = []")
    case True
    then show ?thesis by (subst aggressive_loop.simps) simp
  next
    case False
    let ?batch = "py_take (batch_size (current_settings self)) u"
    show ?thesis
    proof (cases "process_batch self w b df ?batch")
      case (Inl e)
      with False show ?thesis by (subst aggressive_loop.simps) simp
    next
      case (Inr p)
      obtain d2 tasks where p: "p = (d2, tasks)" by (cases p)
      note pb = Inr[unfolded p]
      have sub: "set ?batch \<subseteq> set (unprocessed_rows df)"
        using py_take_subset[of "batch_size (current_settings self)" u]
        by (simp add: less.prems(2))
      have ne: "?batch \<noteq> []" using py_take_nonempty[OF bs False] .
      have "length (unprocessed_rows d2) < length u"
        unfolding less.prems(2) by (rule batch_shrinks_rows[OF pb less.prems(1) sub ne])
      moreover have "url_column d2 \<noteq> None"
        using url_column_evolves[OF process_batch_evolves[OF pb]] less.prems(1) by simp
      ultimately have "\<exists>r. aggressive_loop self w (Suc b) d2 (log @ tasks) (unprocessed_rows d2) = Some r"
        using less.hyps by blast
      then show ?thesis
        by (subst aggressive_loop.simps) (simp add: False pb)
    qed
  qed
qed

lemma retry_loop_terminates:
  assumes bs: "0 < batch_size (current_settings self)"
  shows "url_column df \<noteq> None \<Longrightarrow> u = unprocessed_in df pool \<Longrightarrow>
         \<exists>r. retry_loop self w pool b df log u = Some r"
proof (induction "length u" arbitrary: b df log u rule: less_induct)
  case less
  show ?case
  proof (cases "u = []")
    case True
    then show ?thesis by (subst retry_loop.simps) simp
  next
    case False
    let ?batch = "py_take (batch_size (current_settings self)) u"
    show ?thesis
    proof (cases "process_batch self w b df ?batch")
      case (Inl e)
      with False show ?thesis by (subst retry_loop.simps) simp
    next
      case (Inr p)
      obtain d2 tasks where p: "p = (d2, tasks)" by (cases p)
      note pb = Inr[unfolded p]
      have sub: "set ?batch \<subseteq> set (unprocessed_in df pool)"
        using py_take_subset[of "batch_size (current_settings self)" u]
        by (simp add: less.prems(2))
      have ne: "?batch \<noteq> []" using py_take_nonempty[OF bs False] .
      have "length (unprocessed_in d2 pool) < length u"
        unfolding less.prems(2) by (rule batch_shrinks_in[OF pb less.prems(1) sub ne])
      moreover have "url_column d2 \<noteq> None"
        using url_column_evolves[OF process_batch_evolves[OF pb]] less.prems(1) by simp
      ultimately have "\<exists>r. retry_loop self w pool (Suc b) d2 (log @ tasks) (unprocessed_in d2 pool) = Some r"
        using less.hyps by blast
      then show ?thesis
        by (subst retry_loop.simps) (simp add: False pb)
    qed
  qed
qed

section \<open>The table between the phases\<close>

lemma reset_status_length: "length (rows (reset_status df idxs)) = length (rows df)"
  unfolding reset_status_def
  by (induction idxs arbitrary: df) (simp_all add: set_cell_length)

lemma reset_status_columns:
  "set (columns (reset_status df idxs)) =
     (if idxs = [] then set (columns df) else insert ''analysis_status'' (set (columns df)))"
  unfolding reset_status_def
  by (induction idxs arbitrary: df) (auto simp: set_cell_columns)

lemma reset_status_row:
  "rows (reset_status df idxs) ! j =
     (if j \<in> set idxs \<and> j < length (rows df)
      then (rows df ! j)(''analysis_status'' := None) else rows df ! j)"
  unfolding reset_status_def
proof (induction idxs arbitrary: df)
  case Nil
  then show ?case by simp
next
  case (Cons i idxs)
  show ?case
    by (auto simp add: Cons.IH set_cell_length set_cell_row simp del: fun_upd_apply)
qed

lemma in_rows_with_status:
  "i \<in> set (rows_with_status df s) \<longleftrightarrow>
     i < length (rows df) \<and> status (rows df ! i) = Some (Str s)"
  by (auto simp: rows_with_status_def index_list_def)

lemma init_fold_effect:
  "d' = fold (\<lambda>col d. if col \<notin> set (columns d) then set_column_na d col else d) cols d \<Longrightarrow>
   length (rows d') = length (rows d)
   \<and> set (columns d') = set (columns d) \<union> set cols
   \<and> (\<forall>i < length (rows d). \<forall>c.
         (rows d' ! i) c = (if c \<in> set cols \<and> c \<notin> set (columns d) then None else (rows d ! i) c))"
proof (induction cols arbitrary: d d')
  case Nil
  then show ?case by simp
next
  case (Cons col cols)
  let ?m = "if col \<notin> set (columns d) then set_column_na d col else d"
  from Cons.prems have d': "d' = fold (\<lambda>col d. if col \<notin> set (columns d) then set_column_na d col else d) cols ?m"
    by simp
  note IH = Cons.IH[OF d']
  have len: "length (rows ?m) = length (rows d)" by (simp add: set_column_na_def)
  have cols: "set (columns ?m) = insert col (set (columns d))" by (auto simp: set_column_na_def)
  have row: "\<And>i c. i < length (rows d) \<Longrightarrow>
      (rows ?m ! i) c = (if c = col \<and> col \<notin> set (columns d) then None else (rows d ! i) c)"
    by (simp add: set_column_na_def)
  show ?case
  proof (intro conjI allI impI)
    show "length (rows d') = length (rows d)" using IH len by simp
    show "set (columns d') = set (columns d) \<union> set (col # cols)" using IH cols by auto
    fix i c assume i: "i < length (rows d)"
    then have "(rows d' ! i) c =
       (if c \<in> set cols \<and> c \<notin> set (columns ?m) then None else (rows ?m ! i) c)"
      using IH len by simp
    then show "(rows d' ! i) c =
       (if c \<in> set (col # cols) \<and> c \<notin> set (columns d) then None else (rows d ! i) c)"
      unfolding cols row[OF i] by auto
  qed
qed

lemma init_columns_effect:
  "length (rows (init_columns df)) = length (rows df)
   \<and> set (columns (init_columns df)) = set (columns df) \<union> set analysis_columns
   \<and> (\<forall>i < length (rows df). \<forall>c.
         (rows (init_columns df) ! i) c =
           (if c \<in> set analysis_columns \<and> c \<notin> set (columns df) then None else (rows df ! i) c))"
  using init_fold_effect[OF init_columns_def] .

lemma init_columns_list:
  "columns (init_columns df) = columns df @ filter (\<lambda>c. c \<notin> set (columns df)) analysis_columns"
proof -
  have gen: "distinct cols \<Longrightarrow>
     columns (fold (\<lambda>col d. if col \<notin> set (columns d) then set_column_na d col else d) cols d)
       = columns d @ filter (\<lambda>c. c \<notin> set (columns d)) cols" for cols d
  proof (induction cols arbitrary: d)
    case Nil
    then show ?case by simp
  next
    case (Cons col cols)
    have "filter (\<lambda>c. c \<noteq> col \<and> c \<notin> set (columns d)) cols
            = filter (\<lambda>c. c \<notin> set (columns d)) cols"
      using Cons.prems by (intro filter_cong) auto
    with Cons show ?case by (simp add: set_column_na_def)
  qed
  have "distinct analysis_columns" by (simp add: analysis_columns_def)
  from gen[OF this] show ?thesis by (simp add: init_columns_def)
qed

lemma init_columns_rows_wf:
  assumes "\<forall>r \<in> set (rows df). \<forall>c. c \<notin> set (columns df) \<longrightarrow> r c = None"
  shows "rows (init_columns df) = rows df"
proof (rule nth_equalityI)
  show "length (rows (init_columns df)) = length (rows df)"
    using init_columns_effect by blast
next
  fix i assume "i < length (rows (init_columns df))"
  then have i: "i < length (rows df)" using init_columns_effect[of df] by simp
  then have "rows df ! i \<in> set (rows df)" by simp
  with assms have "\<And>c. c \<notin> set (columns df) \<Longrightarrow> (rows df ! i) c = None" by blast
  then show "rows (init_columns df) ! i = rows df ! i"
    using init_columns_effect[of df] i by (intro ext) auto
qed

lemma phase_reset_nothing:
  "rows_with_status df ''FAILED'' = [] \<Longrightarrow> retry_phase name chosen self w (b, df, log) = Some (Inr (b, df, log))"
  by (simp add: retry_phase_def phase_reset_def)

lemma statuses_ok_evolves: "evolves B d d' \<Longrightarrow> statuses_ok d \<Longrightarrow> statuses_ok d'"
  unfolding evolves_def statuses_ok_def by (metis insert_iff)

lemma settled_iff: "settled d \<longleftrightarrow> statuses_ok d \<and> unprocessed_rows d = []"
proof -
  have "unprocessed_rows d = [] \<longleftrightarrow> (\<forall>i<length (rows d). status (rows d ! i) \<noteq> None)"
    by (auto simp: unprocessed_rows_def index_list_def filter_empty_conv)
  note un = this
  show ?thesis
  proof
    assume "settled d"
    then show "statuses_ok d \<and> unprocessed_rows d = []"
      using un by (auto simp: settled_def statuses_ok_def dest: terminal_not_None)
  next
    assume a: "statuses_ok d \<and> unprocessed_rows d = []"
    show "settled d"
      unfolding settled_def
    proof (intro allI impI)
      fix i assume i: "i < length (rows d)"
      with a un have "status (rows d ! i) \<noteq> None" by blast
      moreover from a i have "status (rows d ! i) \<in> insert None terminal"
        by (simp add: statuses_ok_def)
      ultimately show "status (rows d ! i) \<in> terminal" by auto
    qed
  qed
qed

lemma aggressive_loop_settled:
  assumes run: "aggressive_loop self w b df log (unprocessed_rows df) = Some (Inr (b', df', log'))"
    and ok: "statuses_ok df"
  shows "settled df' \<and> length (rows df') = length (rows df) \<and> url_column df' = url_column df"
proof -
  let ?I = "\<lambda>d (l :: (nat \<times> string) list).
              statuses_ok d \<and> length (rows d) = length (rows df) \<and> url_column d = url_column df"
  have "?I df' log' \<and> unprocessed_rows df' = []"
  proof (rule aggressive_loop_inv[OF run refl, where I = ?I])
    show "?I df log" using ok by simp
  next
    fix b d l batch d2 tasks
    assume "?I d l" and pb: "process_batch self w b d batch = Inr (d2, tasks)"
    with process_batch_evolves[OF pb] show "?I d2 (l @ tasks)"
      by (auto simp: statuses_ok_evolves url_column_evolves) (simp add: evolves_def)
  qed
  then show ?thesis by (simp add: settled_iff)
qed

lemma reset_pool_unprocessed:
  assumes "pool = rows_with_status df ''FAILED''"
  shows "unprocessed_in (reset_status df pool) pool = pool"
proof -
  have "\<And>i. i < length (rows df) \<Longrightarrow>
      (i \<in> set pool \<and> status (rows (reset_status df pool) ! i) = None)
        = (status (rows df ! i) = Some (Str ''FAILED''))"
    by (auto simp: assms in_rows_with_status reset_status_row status_def)
  then have "unprocessed_in (reset_status df pool) pool =
      filter (\<lambda>i. status (rows df ! i) = Some (Str ''FAILED'')) [0..<length (rows df)]"
    unfolding unprocessed_in_def index_list_def reset_status_length
    by (intro filter_cong) auto
  also have "\<dots> = pool" by (simp add: assms rows_with_status_def index_list_def)
  finally show ?thesis .
qed

lemma retry_phase_settled:
  assumes run: "retry_phase name chosen self w (b, df, log) = Some (Inr (b', df', log'))"
    and st: "settled df"
  shows "settled df' \<and> length (rows df') = length (rows df) \<and> url_column df' = url_column df"
proof -
  define pool where "pool = rows_with_status df ''FAILED''"
  define dr where "dr = reset_status df pool"
  show ?thesis
  proof (cases "pool = []")
    case True
    with run show ?thesis using st
      by (simp add: retry_phase_def phase_reset_def pool_def)
  next
    case False
    let ?s = "self\<lparr>phase := name, current_settings := chosen\<rparr>"
    from False run have loop: "retry_loop ?s w pool b dr log (unprocessed_in dr pool) = Some (Inr (b', df', log'))"
      by (simp add: retry_phase_def phase_reset_def pool_def[symmetric] dr_def[symmetric]
          reset_pool_unprocessed[OF pool_def, folded dr_def])
    let ?I = "\<lambda>d (l :: (nat \<times> string) list).
              statuses_ok d \<and> length (rows d) = length (rows df) \<and> url_column d = url_column df
              \<and> set (unprocessed_rows d) \<subseteq> set pool"
    have "?I df' log' \<and> unprocessed_in df' pool = []"
    proof (rule retry_loop_inv[OF loop refl, where I = ?I])
      have "statuses_ok dr"
        using st by (auto simp: statuses_ok_def settled_def dr_def reset_status_length
            reset_status_row status_def)
      moreover have "url_column dr = url_column df"
        unfolding dr_def
        by (rule url_column_cong) (auto simp: reset_status_columns analysis_columns_def)
      moreover have "set (unprocessed_rows dr) \<subseteq> set pool"
      proof
        fix i assume "i \<in> set (unprocessed_rows dr)"
        then have i: "i < length (rows df)" and n: "status (rows dr ! i) = None"
          by (auto simp: in_unprocessed_rows dr_def reset_status_length)
        show "i \<in> set pool"
        proof (rule ccontr)
          assume "i \<notin> set pool"
          then have "rows dr ! i = rows df ! i" by (simp add: dr_def reset_status_row)
          with n have "status (rows df ! i) = None" by simp
          moreover from st i have "status (rows df ! i) \<in> terminal" by (simp add: settled_def)
          ultimately show False by (auto dest: terminal_not_None)
        qed
      qed
      ultimately show "?I dr log" by (simp add: dr_def reset_status_length)
    next
      fix b d l batch d2 tasks
      assume I: "?I d l" and pb: "process_batch ?s w b d batch = Inr (d2, tasks)"
      note ev = process_batch_evolves[OF pb]
      have "set (unprocessed_rows d2) \<subseteq> set (unprocessed_rows d)"
        unfolding unprocessed_rows_evolves[OF ev] by auto
      with I ev show "?I d2 (l @ tasks)"
        by (auto simp: statuses_ok_evolves url_column_evolves) (simp add: evolves_def)
    qed
    then have "statuses_ok df'" "unprocessed_rows df' = []" "length (rows df') = length (rows df)"
      "url_column df' = url_column df"
      by (auto simp: unprocessed_in_def unprocessed_rows_def index_list_def filter_empty_conv)
    then show ?thesis by (simp add: settled_iff)
  qed
qed

lemma fresh_log_start: "fresh_log log0 d log0"
  by (simp add: fresh_log_def)

lemma process_batch_tasks:
  assumes pb: "process_batch self w b d batch = Inr (d2, tasks)" and dist: "distinct batch"
  shows "distinct (map fst tasks) \<and> fst ` set tasks \<subseteq> set batch"
proof (cases "url_column d")
  case None
  with pb show ?thesis by (simp add: process_batch_def)
next
  case (Some col)
  have "map fst tasks = filter (\<lambda>i. valid_url col (rows d ! i)) batch"
    unfolding process_batch_effect(2)[OF pb Some] by (simp add: comp_def)
  then show ?thesis using dist by (metis distinct_filter filter_is_subset list.set_map)
qed

lemma process_batch_tasks_settled:
  assumes pb: "process_batch self w b d batch = Inr (d2, tasks)"
    and i: "i \<in> fst ` set tasks" "i < length (rows d)" and dist: "distinct batch"
  shows "status (rows d2 ! i) \<noteq> None"
proof (cases "url_column d")
  case None
  with pb i show ?thesis by (simp add: process_batch_def)
next
  case (Some col)
  have "i \<in> set batch" using process_batch_tasks[OF pb dist] i by blast
  from process_batch_settles[OF pb _ this i(2)] Some show ?thesis
    by (auto dest: terminal_not_None)
qed

lemma evolves_keeps_status:
  assumes "evolves B d d'" "status (rows d ! i) \<noteq> None"
  shows "status (rows d' ! i) \<noteq> None"
proof -
  from assms(1) have "status (rows d' ! i) = status (rows d ! i) \<or> status (rows d' ! i) \<in> terminal"
    by (simp add: evolves_def)
  then show ?thesis
  proof
    assume "status (rows d' ! i) = status (rows d ! i)"
    with assms(2) show ?thesis by simp
  next
    assume "status (rows d' ! i) \<in> terminal"
    then show ?thesis by (rule terminal_not_None)
  qed
qed

lemma fresh_log_step:
  assumes I: "fresh_log log0 d l" and dist: "distinct batch"
    and sub: "set batch \<subseteq> set (unprocessed_rows d)"
    and pb: "process_batch self w b d batch = Inr (d2, tasks)"
  shows "fresh_log log0 d2 (l @ tasks)"
proof -
  from I obtain new where new: "l = log0 @ new" "distinct (map fst new)"
    "\<forall>i \<in> fst ` set new. i < length (rows d) \<and> status (rows d ! i) \<noteq> None"
    by (auto simp: fresh_log_def)
  note ev = process_batch_evolves[OF pb]
  note t = process_batch_tasks[OF pb dist]
  have len: "length (rows d2) = length (rows d)" using ev by (simp add: evolves_def)
  have keep: "\<And>i. status (rows d ! i) \<noteq> None \<Longrightarrow> status (rows d2 ! i) \<noteq> None"
    using evolves_keeps_status[OF ev] .
  have disj: "fst ` set new \<inter> fst ` set tasks = {}"
  proof -
    have "status (rows d ! i) = None" if "i \<in> fst ` set tasks" for i
    proof -
      from that t have "i \<in> set batch" by blast
      with sub have "i \<in> set (unprocessed_rows d)" by blast
      then show ?thesis by (simp add: in_unprocessed_rows)
    qed
    with new(3) show ?thesis by blast
  qed
  have "distinct (map fst (new @ tasks))"
    using new(2) t disj by simp
  moreover have "\<forall>i \<in> fst ` set (new @ tasks). i < length (rows d2) \<and> status (rows d2 ! i) \<noteq> None"
  proof
    fix i assume "i \<in> fst ` set (new @ tasks)"
    then consider "i \<in> fst ` set new" | "i \<in> fst ` set tasks" by auto
    then show "i < length (rows d2) \<and> status (rows d2 ! i) \<noteq> None"
    proof cases
      case 1
      with new(3) keep len show ?thesis by auto
    next
      case 2
      then have "i \<in> set (unprocessed_rows d)" using t sub by blast
      then have "i < length (rows d)" by (simp add: in_unprocessed_rows)
      with process_batch_tasks_settled[OF pb 2 _ dist] len show ?thesis by simp
    qed
  qed
  ultimately show ?thesis unfolding fresh_log_def using new(1) by (intro exI[of _ "new @ tasks"]) simp
qed

lemma aggressive_loop_frame:
  assumes run: "aggressive_loop self w b df log (unprocessed_rows df) = Some (Inr (b', df', log'))"
  shows "length (rows df') = length (rows df) \<and> url_column df' = url_column df
         \<and> (\<exists>new. log' = log @ new \<and> distinct (map fst new))"
proof -
  let ?I = "\<lambda>d l. length (rows d) = length (rows df) \<and> url_column d = url_column df
              \<and> fresh_log log d l"
  have "?I df' log' \<and> unprocessed_rows df' = []"
  proof (rule aggressive_loop_inv[OF run refl, where I = ?I])
    show "?I df log" by (simp add: fresh_log_start)
  next
    fix b d l batch d2 tasks
    assume I: "?I d l" and dist: "distinct batch" and sub: "set batch \<subseteq> set (unprocessed_rows d)"
      and pb: "process_batch self w b d batch = Inr (d2, tasks)"
    from process_batch_evolves[OF pb] I fresh_log_step[OF _ dist sub pb]
    show "?I d2 (l @ tasks)"
      by (auto simp: url_column_evolves) (simp add: evolves_def)
  qed
  then show ?thesis by (auto simp: fresh_log_def)
qed

lemma retry_phase_frame:
  assumes run: "retry_phase name chosen self w (b, df, log) = Some (Inr (b', df', log'))"
  shows "length (rows df') = length (rows df) \<and> url_column df' = url_column df
         \<and> (\<exists>new. log' = log @ new \<and> distinct (map fst new))"
proof -
  define pool where "pool = rows_with_status df ''FAILED''"
  define dr where "dr = reset_status df pool"
  show ?thesis
  proof (cases "pool = []")
    case True
    with run show ?thesis
      by (simp add: retry_phase_def phase_reset_def pool_def)
  next
    case False
    let ?s = "self\<lparr>phase := name, current_settings := chosen\<rparr>"
    from False run have loop: "retry_loop ?s w pool b dr log (unprocessed_in dr pool) = Some (Inr (b', df', log'))"
      by (simp add: retry_phase_def phase_reset_def pool_def[symmetric] dr_def[symmetric]
          reset_pool_unprocessed[OF pool_def, folded dr_def])
    let ?I = "\<lambda>d l. length (rows d) = length (rows df) \<and> url_column d = url_column df
              \<and> fresh_log log d l"
    have "?I df' log' \<and> unprocessed_in df' pool = []"
    proof (rule retry_loop_inv[OF loop refl, where I = ?I])
      have "url_column dr = url_column df"
        unfolding dr_def
        by (rule url_column_cong) (auto simp: reset_status_columns analysis_columns_def)
      then show "?I dr log" by (simp add: dr_def reset_status_length fresh_log_start)
    next
      fix b d l batch d2 tasks
      assume I: "?I d l" and dist: "distinct batch" and sub: "set batch \<subseteq> set (unprocessed_in d pool)"
        and pb: "process_batch ?s w b d batch = Inr (d2, tasks)"
      have sub': "set batch \<subseteq> set (unprocessed_rows d)" using sub unprocessed_in_subset by blast
      from process_batch_evolves[OF pb] I fresh_log_step[OF _ dist sub' pb]
      show "?I d2 (l @ tasks)"
        by (auto simp: url_column_evolves) (simp add: evolves_def)
    qed
    then show ?thesis by (auto simp: fresh_log_def)
  qed
qed

lemma retry_phase_terminates:
  assumes bs: "0 < batch_size chosen" and url: "url_column df \<noteq> None"
  shows "\<exists>r. retry_phase name chosen self w (b, df, log) = Some r"
proof -
  define pool where "pool = rows_with_status df ''FAILED''"
  define dr where "dr = reset_status df pool"
  let ?s = "self\<lparr>phase := name, current_settings := chosen\<rparr>"
  have "url_column dr = url_column df"
    unfolding dr_def
    by (rule url_column_cong) (auto simp: reset_status_columns analysis_columns_def)
  with url have "url_column dr \<noteq> None" by simp
  from retry_loop_terminates[of ?s dr _ pool w b log, OF _ this refl] bs
  have "\<exists>r. retry_loop ?s w pool b dr log (unprocessed_in dr pool) = Some r" by simp
  then show ?thesis
    by (simp add: retry_phase_def phase_reset_def pool_def[symmetric] dr_def[symmetric]
        reset_pool_unprocessed[OF pool_def, folded dr_def])
qed

lemma url_column_init: "url_column (init_columns df) = url_column df"
  by (rule url_column_cong) (use init_columns_effect[of df] in auto)

lemma count_list_distinct: "distinct xs \<Longrightarrow> count_list xs i \<le> 1"
  by (induction xs) (auto simp: count_list_0_iff)

lemma statuses_ok_init:
  assumes "\<forall>r \<in> set (rows df). status r \<in> insert None terminal"
  shows "statuses_ok (init_columns df)"
  unfolding statuses_ok_def
proof (intro allI impI)
  fix i assume "i < length (rows (init_columns df))"
  then have i: "i < length (rows df)" using init_columns_effect[of df] by simp
  then have "status (rows df ! i) \<in> insert None terminal" using assms by simp
  moreover have "status (rows (init_columns df) ! i) = None
      \<or> status (rows (init_columns df) ! i) = status (rows df ! i)"
    using init_columns_effect[of df] i by (simp add: status_def)
  ultimately show "status (rows (init_columns df) ! i) \<in> insert None terminal" by auto
qed

lemma continuous_process_phases:
  assumes "continuous_process self w df = Some (Inr st3)"
  obtains st1 st2 where
    "aggressive_loop (self\<lparr>phase := ''Aggressive Processing'',
                            current_settings := aggressive_settings self\<rparr>)
       w 0 (init_columns df) [] (unprocessed_rows (init_columns df)) = Some (Inr st1)"
    "retry_phase ''Conservative Retry'' (conservative_settings self) self w st1 = Some (Inr st2)"
    "retry_phase ''Patient Processing'' (patient_settings self) self w st2 = Some (Inr st3)"
  using assms
  by (auto simp: continuous_process_def Let_def on_success_def split: option.splits sum.splits)

lemma retry_phase_inv:
  assumes run: "retry_phase name chosen self w (b, df, log) = Some (Inr (b', df', log'))"
    and un: "unprocessed_rows df = []" and I: "I df log"
    and step: "\<And>s b d l batch d2 tasks. I d l \<Longrightarrow> distinct batch \<Longrightarrow>
                 set batch \<subseteq> set (unprocessed_rows d) \<Longrightarrow>
                 process_batch s w b d batch = Inr (d2, tasks) \<Longrightarrow> I d2 (l @ tasks)"
    and reset: "\<And>d l. I d l \<Longrightarrow> I (reset_status d (rows_with_status d ''FAILED'')) l"
  shows "I df' log' \<and> unprocessed_rows df' = []"
proof -
  define pool where "pool = rows_with_status df ''FAILED''"
  define dr where "dr = reset_status df pool"
  show ?thesis
  proof (cases "pool = []")
    case True
    with run show ?thesis using un I
      by (simp add: retry_phase_def phase_reset_def pool_def)
  next
    case False
    let ?s = "self\<lparr>phase := name, current_settings := chosen\<rparr>"
    from False run have loop: "retry_loop ?s w pool b dr log (unprocessed_in dr pool) = Some (Inr (b', df', log'))"
      by (simp add: retry_phase_def phase_reset_def pool_def[symmetric] dr_def[symmetric]
          reset_pool_unprocessed[OF pool_def, folded dr_def])
    let ?I = "\<lambda>d l. I d l \<and> length (rows d) = length (rows df)
                \<and> set (unprocessed_rows d) \<subseteq> set pool"
    have "?I df' log' \<and> unprocessed_in df' pool = []"
    proof (rule retry_loop_inv[OF loop refl, where I = ?I])
      have "set (unprocessed_rows dr) \<subseteq> set pool"
      proof
        fix i assume "i \<in> set (unprocessed_rows dr)"
        then have i: "i < length (rows df)" and n: "status (rows dr ! i) = None"
          by (auto simp: in_unprocessed_rows dr_def reset_status_length)
        show "i \<in> set pool"
        proof (rule ccontr)
          assume "i \<notin> set pool"
          then have "rows dr ! i = rows df ! i" by (simp add: dr_def reset_status_row)
          with n i have "i \<in> set (unprocessed_rows df)" by (simp add: in_unprocessed_rows)
          with un show False by simp
        qed
      qed
      then show "?I dr log"
        using reset[OF I] by (simp add: dr_def pool_def reset_status_length)
    next
      fix b d l batch d2 tasks
      assume I': "?I d l" and dist: "distinct batch"
        and sub: "set batch \<subseteq> set (unprocessed_in d pool)"
        and pb: "process_batch ?s w b d batch = Inr (d2, tasks)"
      note ev = process_batch_evolves[OF pb]
      have sub': "set batch \<subseteq> set (unprocessed_rows d)" using sub unprocessed_in_subset by blast
      have "set (unprocessed_rows d2) \<subseteq> set (unprocessed_rows d)"
        unfolding unprocessed_rows_evolves[OF ev] by auto
      moreover have "length (rows d2) = length (rows d)" using ev by (simp add: evolves_def)
      ultimately show "?I d2 (l @ tasks)"
        using I' step[OF _ dist sub' pb] by auto
    qed
    then have "I df' log'" and len: "length (rows df') = length (rows df)"
      and a: "set (unprocessed_rows df') \<subseteq> set pool" and b: "unprocessed_in df' pool = []"
      by auto
    have "unprocessed_rows df' = []"
    proof (rule ccontr)
      assume "unprocessed_rows df' \<noteq> []"
      then obtain i where i: "i \<in> set (unprocessed_rows df')" by (cases "unprocessed_rows df'") auto
      with a have "i \<in> set pool" by blast
      with i have "i \<in> set (unprocessed_in df' pool)"
        by (simp add: in_unprocessed_rows in_unprocessed_in)
      with b show False by simp
    qed
    with \<open>I df' log'\<close> show ?thesis by simp
  qed
qed

lemma continuous_process_inv:
  assumes run: "continuous_process self w df = Some (Inr (b', df', log'))"
    and I: "I (init_columns df) []"
    and step: "\<And>s b d l batch d2 tasks. I d l \<Longrightarrow> distinct batch \<Longrightarrow>
                 set batch \<subseteq> set (unprocessed_rows d) \<Longrightarrow>
                 process_batch s w b d batch = Inr (d2, tasks) \<Longrightarrow> I d2 (l @ tasks)"
    and reset: "\<And>d l. I d l \<Longrightarrow> I (reset_status d (rows_with_status d ''FAILED'')) l"
  shows "I df' log' \<and> unprocessed_rows df' = []"
proof -
  from continuous_process_phases[OF run] obtain st1 st2 where
    p1: "aggressive_loop (self\<lparr>phase := ''Aggressive Processing'',
                            current_settings := aggressive_settings self\<rparr>)
       w 0 (init_columns df) [] (unprocessed_rows (init_columns df)) = Some (Inr st1)"
    and p2: "retry_phase ''Conservative Retry'' (conservative_settings self) self w st1 = Some (Inr st2)"
    and p3: "retry_phase ''Patient Processing'' (patient_settings self) self w st2 = Some (Inr (b', df', log'))"
    by blast
  obtain b1 d1 l1 where st1: "st1 = (b1, d1, l1)" by (cases st1)
  obtain b2 d2 l2 where st2: "st2 = (b2, d2, l2)" by (cases st2)
  have r1: "I d1 l1 \<and> unprocessed_rows d1 = []"
    by (rule aggressive_loop_inv[where I = I, OF p1[unfolded st1] refl I]) (rule step)
  have r2: "I d2 l2 \<and> unprocessed_rows d2 = []"
    by (rule retry_phase_inv[where I = I, OF p2[unfolded st1 st2] conjunct2[OF r1] conjunct1[OF r1]])
       (rule step, assumption+, rule reset)
  show ?thesis
    by (rule retry_phase_inv[where I = I, OF p3[unfolded st2] conjunct2[OF r2] conjunct1[OF r2]])
       (rule step, assumption+, rule reset)
qed

lemma clean_url_None: "clean_url v = None \<longleftrightarrow> v = None \<or> v = Some (Str []) \<or> v = Some (Num 0)"
  by (auto simp: clean_url_def Let_def split: option.splits)

lemma startswith_iff: "startswith s p \<longleftrightarrow> (\<exists>r. s = p @ r)"
  by (induction s p rule: startswith.induct) auto

lemma rstrip_chars_Nil: "rstrip_chars P s = [] \<longleftrightarrow> (\<forall>c \<in> set s. P c)"
  by (simp add: rstrip_chars_def dropWhile_eq_Nil_conv)

lemma rstrip_slash_scheme:
  "rstrip_slash (''https://'' @ u) \<noteq> []" "startswith u ''http://'' \<Longrightarrow> rstrip_slash u \<noteq> []"
  "startswith u ''https://'' \<Longrightarrow> rstrip_slash u \<noteq> []"
proof -
  have ne: "\<And>s. CHR ''h'' \<in> set s \<Longrightarrow> rstrip_slash s \<noteq> []"
    unfolding rstrip_slash_def rstrip_chars_Nil by (rule notI, drule bspec, assumption) simp
  show "rstrip_slash (''https://'' @ u) \<noteq> []" by (rule ne) simp
  show "rstrip_slash u \<noteq> []" if "startswith u ''http://''"
  proof -
    from that obtain r where "u = ''http://'' @ r" unfolding startswith_iff by blast
    then show ?thesis by (intro ne) simp
  qed
  show "rstrip_slash u \<noteq> []" if "startswith u ''https://''"
  proof -
    from that obtain r where "u = ''https://'' @ r" unfolding startswith_iff by blast
    then show ?thesis by (intro ne) simp
  qed
qed

lemma clean_url_Some: "clean_url v = Some u \<Longrightarrow> u \<noteq> []"
  using rstrip_slash_scheme
  by (auto simp: clean_url_def Let_def split: option.splits if_splits)

section \<open>Properties of the scheduler\<close>

text \<open>
  C2. At a phase boundary the pool of the next phase is exactly the list of rows whose
  status is \<^verbatim>\<open>FAILED\<close>, those rows get the unset status, the retry loop starts from the
  reset table with that pool, and every other row (in particular a \<^verbatim>\<open>COMPLETED\<close> or
  \<^verbatim>\<open>INVALID_URL\<close> one) is outside the pool and keeps its row as it is.
\<close>

theorem phase_boundary_resets_exactly_failed:
  assumes "phase_reset df = (pool, df')"
  shows "pool = filter (\<lambda>i. status (rows df ! i) = Some (Str ''FAILED'')) [0..<length (rows df)]
     \<and> length (rows df') = length (rows df)
     \<and> (\<forall>i < length (rows df).
           status (rows df' ! i) =
             (if status (rows df ! i) = Some (Str ''FAILED'') then None
              else status (rows df ! i)))
     \<and> (\<forall>i < length (rows df).
           status (rows df ! i) \<noteq> Some (Str ''FAILED'') \<longrightarrow>
             i \<notin> set pool \<and> rows df' ! i = rows df ! i)
     \<and> (\<forall>i c. c \<noteq> ''analysis_status'' \<longrightarrow> (rows df' ! i) c = (rows df ! i) c)
     \<and> retry_phase name chosen self w (b, df, log) =
         (if pool = [] then Some (Inr (b, df, log))
          else retry_loop (self\<lparr>phase := name, current_settings := chosen\<rparr>) w pool b df' log pool)"
proof -
  from assms have pool: "pool = rows_with_status df ''FAILED''"
    and df': "df' = reset_status df pool"
    by (auto simp: phase_reset_def Let_def)
  have mem: "\<And>i. i \<in> set pool \<longleftrightarrow> i < length (rows df) \<and> status (rows df ! i) = Some (Str ''FAILED'')"
    by (simp add: pool in_rows_with_status)
  show ?thesis
  proof (intro conjI allI impI)
    show "pool = filter (\<lambda>i. status (rows df ! i) = Some (Str ''FAILED'')) [0..<length (rows df)]"
      by (simp add: pool rows_with_status_def index_list_def)
    show "length (rows df') = length (rows df)" by (simp add: df' reset_status_length)
    show "status (rows df' ! i) =
             (if status (rows df ! i) = Some (Str ''FAILED'') then None else status (rows df ! i))"
      if "i < length (rows df)" for i
      using that by (simp add: df' reset_status_row mem status_def)
    show "i \<notin> set pool" if "i < length (rows df)" "status (rows df ! i) \<noteq> Some (Str ''FAILED'')" for i
      using that by (simp add: mem)
    show "rows df' ! i = rows df ! i"
      if "i < length (rows df)" "status (rows df ! i) \<noteq> Some (Str ''FAILED'')" for i
      using that by (simp add: df' reset_status_row mem)
    show "(rows df' ! i) c = (rows df ! i) c" if "c \<noteq> ''analysis_status''" for i c
      using that by (simp add: df' reset_status_row)
    show "retry_phase name chosen self w (b, df, log) =
         (if pool = [] then Some (Inr (b, df, log))
          else retry_loop (self\<lparr>phase := name, current_settings := chosen\<rparr>) w pool b df' log pool)"
      by (simp add: retry_phase_def assms)
  qed
qed

text \<open>
  C5. For a table whose statuses are unset or among the three written ones: when the run
  reaches its end, no row was added or lost, every status is \<^verbatim>\<open>COMPLETED\<close>,
  \<^verbatim>\<open>FAILED\<close> or \<^verbatim>\<open>INVALID_URL\<close>, none is unset, and no row was crawled more than three
  times (once per phase: nothing is retried after the patient phase). With a URL column and
  positive batch sizes the run does come to an end (a result or an exception).
\<close>

theorem scheduler_terminal_statuses:
  assumes start: "\<forall>r \<in> set (rows df). status r \<in>
      {None, Some (Str ''COMPLETED''), Some (Str ''FAILED''), Some (Str ''INVALID_URL'')}"
  shows "(\<forall>b' df' log'. continuous_process self w df = Some (Inr (b', df', log')) \<longrightarrow>
            length (rows df') = length (rows df)
            \<and> (\<forall>r \<in> set (rows df'). status r \<in>
                  {Some (Str ''COMPLETED''), Some (Str ''FAILED''), Some (Str ''INVALID_URL'')})
            \<and> unprocessed_rows df' = []
            \<and> (\<forall>i. count_list (map fst log') i \<le> 3))
     \<and> (url_column df \<noteq> None \<and> 0 < batch_size (aggressive_settings self)
          \<and> 0 < batch_size (conservative_settings self) \<and> 0 < batch_size (patient_settings self)
          \<longrightarrow> (\<exists>r. continuous_process self w df = Some r))"
proof (intro conjI allI impI ballI)
  fix b' df' log'
  assume run: "continuous_process self w df = Some (Inr (b', df', log'))"
  from continuous_process_phases[OF run] obtain st1 st2 where
    p1: "aggressive_loop (self\<lparr>phase := ''Aggressive Processing'',
                            current_settings := aggressive_settings self\<rparr>)
       w 0 (init_columns df) [] (unprocessed_rows (init_columns df)) = Some (Inr st1)"
    and p2: "retry_phase ''Conservative Retry'' (conservative_settings self) self w st1 = Some (Inr st2)"
    and p3: "retry_phase ''Patient Processing'' (patient_settings self) self w st2 = Some (Inr (b', df', log'))"
    by blast
  obtain b1 d1 l1 where st1: "st1 = (b1, d1, l1)" by (cases st1)
  obtain b2 d2 l2 where st2: "st2 = (b2, d2, l2)" by (cases st2)
  have ok0: "statuses_ok (init_columns df)"
    by (rule statuses_ok_init) (use start in \<open>simp add: terminal_def\<close>)
  note s1 = aggressive_loop_settled[OF p1[unfolded st1] ok0]
  note f1 = aggressive_loop_frame[OF p1[unfolded st1]]
  note s2 = retry_phase_settled[OF p2[unfolded st1 st2] conjunct1[OF s1]]
  note f2 = retry_phase_frame[OF p2[unfolded st1 st2]]
  note s3 = retry_phase_settled[OF p3[unfolded st2] conjunct1[OF s2]]
  note f3 = retry_phase_frame[OF p3[unfolded st2]]
  show "length (rows df') = length (rows df)"
    using s1 s2 s3 init_columns_effect[of df] by simp
  show "status r \<in> {Some (Str ''COMPLETED''), Some (Str ''FAILED''), Some (Str ''INVALID_URL'')}"
    if "r \<in> set (rows df')" for r
    using s3 that by (auto simp: settled_def in_set_conv_nth terminal_def)
  show "unprocessed_rows df' = []" using s3 by (simp add: settled_iff)
  fix i
  from f1 f2 f3 obtain n1 n2 n3 where
    "log' = n1 @ n2 @ n3" "distinct (map fst n1)" "distinct (map fst n2)" "distinct (map fst n3)"
    by auto
  with count_list_distinct[of "map fst n1" i] count_list_distinct[of "map fst n2" i]
    count_list_distinct[of "map fst n3" i]
  show "count_list (map fst log') i \<le> 3" by simp
next
  assume a: "url_column df \<noteq> None \<and> 0 < batch_size (aggressive_settings self)
          \<and> 0 < batch_size (conservative_settings self) \<and> 0 < batch_size (patient_settings self)"
  let ?s1 = "self\<lparr>phase := ''Aggressive Processing'', current_settings := aggressive_settings self\<rparr>"
  let ?d0 = "init_columns df"
  have url0: "url_column ?d0 \<noteq> None" using a by (simp add: url_column_init)
  from aggressive_loop_terminates[of ?s1 ?d0 _ w 0 "[]", OF _ url0 refl] a
  obtain r1 where r1: "aggressive_loop ?s1 w 0 ?d0 [] (unprocessed_rows ?d0) = Some r1" by auto
  show "\<exists>r. continuous_process self w df = Some r"
  proof (cases r1)
    case (Inl e)
    with r1 show ?thesis
      by (simp add: continuous_process_def Let_def on_success_def split: option.splits)
  next
    case (Inr st1)
    obtain b1 d1 l1 where st1: "st1 = (b1, d1, l1)" by (cases st1)
    from aggressive_loop_frame[OF r1[unfolded Inr st1]] url0
    have url1: "url_column d1 \<noteq> None" by simp
    from retry_phase_terminates[OF _ url1] a
    obtain r2 where r2: "retry_phase ''Conservative Retry'' (conservative_settings self) self w st1 = Some r2"
      unfolding st1 by blast
    show ?thesis
    proof (cases r2)
      case (Inl e)
      with r1 r2 \<open>r1 = Inr st1\<close> show ?thesis
        by (simp add: continuous_process_def Let_def on_success_def split: option.splits)
    next
      case (Inr st2)
      obtain b2 d2 l2 where st2: "st2 = (b2, d2, l2)" by (cases st2)
      from retry_phase_frame[OF r2[unfolded Inr st1 st2]] url1
      have url2: "url_column d2 \<noteq> None" by simp
      from retry_phase_terminates[OF _ url2] a
      obtain r3 where "retry_phase ''Patient Processing'' (patient_settings self) self w st2 = Some r3"
        unfolding st2 by blast
      with r1 r2 \<open>r1 = Inr st1\<close> Inr show ?thesis
        by (simp add: continuous_process_def Let_def on_success_def split: option.splits)
    qed
  qed
qed

text \<open>
  C6. On a table (with no cell outside its columns) whose rows all have the status
  \<^verbatim>\<open>COMPLETED\<close>, the run ends without a single batch: the log of dispatched crawls is
  empty (or the initial backup raised), the rows are the loaded ones, the result columns
  that were absent are appended and no other column changes, and no row is unprocessed.
\<close>

theorem rerun_over_completed_table:
  assumes wf: "\<forall>r \<in> set (rows df). \<forall>c. c \<notin> set (columns df) \<longrightarrow> r c = None"
    and completed: "\<forall>r \<in> set (rows df). status r = Some (Str ''COMPLETED'')"
  shows "continuous_process self w df =
           (case backup_error w 0 of
              Some e \<Rightarrow> Some (Inl e)
            | None \<Rightarrow> Some (Inr (0, init_columns df, [])))
         \<and> rows (init_columns df) = rows df
         \<and> columns (init_columns df) =
             columns df @ filter (\<lambda>c. c \<notin> set (columns df)) analysis_columns
         \<and> unprocessed_rows (init_columns df) = []"
proof -
  have rows: "rows (init_columns df) = rows df" by (rule init_columns_rows_wf[OF wf])
  have un: "unprocessed_rows (init_columns df) = []"
    using completed by (auto simp: unprocessed_rows_def index_list_def rows filter_empty_conv)
  have nf: "rows_with_status (init_columns df) ''FAILED'' = []"
    using completed by (auto simp: rows_with_status_def index_list_def rows filter_empty_conv)
  have loop: "aggressive_loop s w 0 (init_columns df) [] [] = Some (Inr (0, init_columns df, []))" for s
    by (subst aggressive_loop.simps) simp
  show ?thesis
    by (simp add: continuous_process_def Let_def un loop on_success_def phase_reset_nothing[OF nf]
        rows init_columns_list split: option.splits)
qed

text \<open>
  C8 as it holds. A row whose URL cell is missing (no value, the empty string or the
  number 0) is the only kind of row that \<^verbatim>\<open>clean_url\<close> rejects: in a batch it is marked
  \<^verbatim>\<open>INVALID_URL\<close> and gets no task, a phase boundary leaves it out of the pool and leaves
  its row alone, and in a whole run no crawl is ever dispatched for it; a fresh row of this
  kind ends with the status \<^verbatim>\<open>INVALID_URL\<close>. Every other row of a batch gets a task
  with its cleaned URL, whether or not that URL parses.
\<close>

theorem missing_url_is_invalid:
  assumes col: "url_column df = Some col" and i: "i < length (rows df)"
    and missing: "(rows df ! i) col \<in> {None, Some (Str []), Some (Num 0)}"
  shows "clean_url ((rows df ! i) col) = None
    \<and> (\<forall>df' tasks. process_batch self w b df batch = Inr (df', tasks) \<and> i \<in> set batch \<longrightarrow>
          status (rows df' ! i) = Some (Str ''INVALID_URL'')
          \<and> (rows df' ! i) ''has_chatbot'' = Some (Str ''Invalid URL'')
          \<and> i \<notin> fst ` set tasks)
    \<and> (\<forall>df' tasks j. process_batch self w b df batch = Inr (df', tasks) \<and> j \<in> set batch
             \<and> j < length (rows df) \<and> clean_url ((rows df ! j) col) \<noteq> None \<longrightarrow>
          (j, the (clean_url ((rows df ! j) col))) \<in> set tasks
          \<and> status (rows df' ! j) \<in> {Some (Str ''COMPLETED''), Some (Str ''FAILED'')})
    \<and> (\<forall>pool df'. phase_reset df = (pool, df') \<and> status (rows df ! i) = Some (Str ''INVALID_URL'')
          \<longrightarrow> i \<notin> set pool \<and> rows df' ! i = rows df ! i)
    \<and> (\<forall>b' df' log'. continuous_process self w df = Some (Inr (b', df', log')) \<longrightarrow>
          i \<notin> fst ` set log'
          \<and> (status (rows (init_columns df) ! i) = None \<longrightarrow>
                status (rows df' ! i) = Some (Str ''INVALID_URL'')))"
proof (intro conjI allI impI)
  show cu: "clean_url ((rows df ! i) col) = None"
    using missing by (auto simp: clean_url_None)
  have colu: "col \<in> set url_columns" "col \<notin> set analysis_columns"
    using url_column_Some[OF col] url_not_analysis by auto
  {
    fix df' tasks
    assume a: "process_batch self w b df batch = Inr (df', tasks) \<and> i \<in> set batch"
    have nv: "\<not> valid_url col (rows df ! i)" using cu by (simp add: valid_url_def)
    from process_batch_effect(4)[OF conjunct1[OF a] col conjunct2[OF a] i nv]
    have row: "rows df' ! i = write_row invalid_cells (rows df ! i)" .
    show "status (rows df' ! i) = Some (Str ''INVALID_URL'')" by (simp add: row status_invalid)
    show "(rows df' ! i) ''has_chatbot'' = Some (Str ''Invalid URL'')"
      by (simp add: row write_row_def invalid_cells_def)
    show "i \<notin> fst ` set tasks"
      unfolding process_batch_effect(2)[OF conjunct1[OF a] col] using nv by auto
  }
  {
    fix df' tasks j
    assume a: "process_batch self w b df batch = Inr (df', tasks) \<and> j \<in> set batch
             \<and> j < length (rows df) \<and> clean_url ((rows df ! j) col) \<noteq> None"
    then obtain u where u: "clean_url ((rows df ! j) col) = Some u" by auto
    with clean_url_Some[OF u] have v: "valid_url col (rows df ! j)" by (simp add: valid_url_def)
    show "(j, the (clean_url ((rows df ! j) col))) \<in> set tasks"
      unfolding process_batch_effect(2)[OF conjunct1[OF a] col] using a v by auto
    show "status (rows df' ! j) \<in> {Some (Str ''COMPLETED''), Some (Str ''FAILED'')}"
      using process_batch_effect(3)[OF conjunct1[OF a] col _ _ v] a by blast
  }
  {
    fix pool df'
    assume a: "phase_reset df = (pool, df') \<and> status (rows df ! i) = Some (Str ''INVALID_URL'')"
    then have pool: "pool = rows_with_status df ''FAILED''" and df': "df' = reset_status df pool"
      by (auto simp: phase_reset_def Let_def)
    show "i \<notin> set pool" using a by (simp add: pool in_rows_with_status)
    then show "rows df' ! i = rows df ! i" by (simp add: df' reset_status_row)
  }
  {
    fix b' df' log'
    assume run: "continuous_process self w df = Some (Inr (b', df', log'))"
    let ?d0 = "init_columns df"
    let ?I = "\<lambda>d (l :: (nat \<times> string) list).
        length (rows d) = length (rows df) \<and> url_column d = Some col
        \<and> (rows d ! i) col = (rows df ! i) col \<and> i \<notin> fst ` set l
        \<and> (status (rows ?d0 ! i) = None \<longrightarrow>
              status (rows d ! i) \<in> {None, Some (Str ''INVALID_URL'')})"
    have "?I df' log' \<and> unprocessed_rows df' = []"
    proof (rule continuous_process_inv[where I = ?I, OF run])
      have "col \<in> set (columns df)" using url_column_Some[OF col] by simp
      then show "?I ?d0 []"
        using init_columns_effect[of df] i col by (simp add: url_column_init)
    next
      fix s b d l batch d2 tasks
      assume I: "?I d l" and pb: "process_batch s w b d batch = Inr (d2, tasks)"
      note ev = process_batch_evolves[OF pb]
      from I have ucol: "url_column d = Some col" and id: "i < length (rows d)" by (simp_all add: i)
      have nv: "\<not> valid_url col (rows d ! i)" using I cu by (simp add: valid_url_def)
      have t: "i \<notin> fst ` set tasks"
        unfolding process_batch_effect(2)[OF pb ucol] using nv by auto
      have st: "status (rows d2 ! i) = status (rows d ! i)
                \<or> status (rows d2 ! i) = Some (Str ''INVALID_URL'')"
      proof (cases "i \<in> set batch")
        case True
        from process_batch_effect(4)[OF pb ucol True id nv] show ?thesis
          by (simp add: status_invalid)
      next
        case False
        with ev show ?thesis by (simp add: evolves_def)
      qed
      have "(rows d2 ! i) col = (rows d ! i) col" using ev colu by (simp add: evolves_def)
      moreover have "length (rows d2) = length (rows d)" using ev by (simp add: evolves_def)
      ultimately show "?I d2 (l @ tasks)"
        using I t st url_column_evolves[OF ev] by auto
    next
      fix d l
      assume I: "?I d l"
      let ?r = "reset_status d (rows_with_status d ''FAILED'')"
      have "url_column ?r = url_column d"
        by (rule url_column_cong) (auto simp: reset_status_columns analysis_columns_def)
      moreover have "(rows ?r ! i) col = (rows d ! i) col"
        using colu by (auto simp: reset_status_row analysis_columns_def)
      moreover have "status (rows d ! i) \<in> {None, Some (Str ''INVALID_URL'')}
          \<Longrightarrow> status (rows ?r ! i) = status (rows d ! i)"
        by (auto simp: reset_status_row in_rows_with_status status_def)
      ultimately show "?I ?r l" using I by (auto simp: reset_status_length)
    qed
    then have I: "?I df' log'" and un: "unprocessed_rows df' = []" by blast+
    show "i \<notin> fst ` set log'" using I by simp
    show "status (rows df' ! i) = Some (Str ''INVALID_URL'')" if "status (rows ?d0 ! i) = None"
    proof -
      have "i \<notin> set (unprocessed_rows df')" using un by simp
      then have "status (rows df' ! i) \<noteq> None" using I i by (simp add: in_unprocessed_rows)
      with I that show ?thesis by auto
    qed
  }
qed

section \<open>Properties of the classifier\<close>

text \<open>
  C3. For every analysis result the classifier returns the tier of the first matching
  rule in the priority order HIGH-VALUE (no chatbot, booking present, OTA present),
  GOOD (no chatbot, booking present), MEDIUM (no chatbot), NOT A PROSPECT (otherwise),
  where booking present means that the booking technology list is not empty or the
  online-booking flag is set; the tier is one of the four labels, and it is a function
  of the three truth values only.
\<close>

theorem classifier_first_matching_rule:
  "generate_prospect_evaluation a =
     tier_by_priority (has_chatbot a) (booking_present a) (ota_present a)
   \<and> generate_prospect_evaluation a \<in>
       {''HIGH-VALUE PROSPECT'', ''GOOD PROSPECT'', ''MEDIUM PROSPECT'', ''NOT A PROSPECT''}
   \<and> (generate_prospect_evaluation a = ''HIGH-VALUE PROSPECT''
        \<longleftrightarrow> \<not> has_chatbot a \<and> booking_present a \<and> ota_present a)
   \<and> (generate_prospect_evaluation a = ''GOOD PROSPECT''
        \<longleftrightarrow> \<not> has_chatbot a \<and> booking_present a \<and> \<not> ota_present a)
   \<and> (generate_prospect_evaluation a = ''MEDIUM PROSPECT''
        \<longleftrightarrow> \<not> has_chatbot a \<and> \<not> booking_present a)
   \<and> (generate_prospect_evaluation a = ''NOT A PROSPECT'' \<longleftrightarrow> has_chatbot a)"
  by (simp add: generate_prospect_evaluation_def tier_by_priority_def booking_present_def
      ota_present_def)

theorem classifier_first_matching_rule_witness:
  "generate_prospect_evaluation
     \<lparr>has_chatbot = False, chatbot_types = [], booking_technology = [''fareharbor''],
      ota_dependencies = [''viator''], analysis_details = None, pages_analyzed = 1\<rparr>
   = ''HIGH-VALUE PROSPECT''"
  using classifier_first_matching_rule
    [of "\<lparr>has_chatbot = False, chatbot_types = [], booking_technology = [''fareharbor''],
      ota_dependencies = [''viator''], analysis_details = None, pages_analyzed = 1\<rparr>"]
  by (simp add: booking_present_def ota_present_def tier_by_priority_def)

end
